theory Spec2Isabelle
  imports Complex_Main "HOL-Library.Sublist"
begin

section \<open>Python strings\<close>

text \<open>
  Strings are \<^typ>\<open>string\<close>, one \<^typ>\<open>char\<close> per ASCII character: the model covers ASCII
  text, where Python's \<^verbatim>\<open>str.strip\<close>, \<^verbatim>\<open>str.lower\<close> and the \<^verbatim>\<open>re\<close> classes
  \<^verbatim>\<open>\s\<close>, \<^verbatim>\<open>\w\<close> act as written below.
\<close>

definition is_space :: "char \<Rightarrow> bool" where
  \<comment> \<open>\<^verbatim>\<open>str.isspace\<close> on ASCII: TAB, LF, VT, FF, CR, FS, GS, RS, US and the blank.\<close>
  "is_space c \<longleftrightarrow> c \<in> set [CHR 0x09, CHR 0x0A, CHR 0x0B, CHR 0x0C, CHR 0x0D,
                            CHR 0x1C, CHR 0x1D, CHR 0x1E, CHR 0x1F, CHR 0x20]"

definition strip :: "string \<Rightarrow> string" where
  "strip s = rev (dropWhile is_space (rev (dropWhile is_space s)))"

definition lower_char :: "char \<Rightarrow> char" where
  "lower_char c =
     (case map_of (zip ''ABCDEFGHIJKLMNOPQRSTUVWXYZ'' ''abcdefghijklmnopqrstuvwxyz'') c of
        Some d \<Rightarrow> d
      | None \<Rightarrow> c)"

definition lower :: "string \<Rightarrow> string" where
  "lower s = map lower_char s"

definition startswith :: "string \<Rightarrow> string \<Rightarrow> bool" where
  "startswith s p \<longleftrightarrow> take (length p) s = p"

definition digit_char :: "nat \<Rightarrow> char" where
  "digit_char d = ''0123456789'' ! (d mod 10)"

fun str_nat :: "nat \<Rightarrow> string" where
  "str_nat n = (if n < 10 then [digit_char n] else str_nat (n div 10) @ [digit_char (n mod 10)])"

declare str_nat.simps [simp del]


section \<open>Raw entities\<close>

text \<open>
  An element of an Overpass response, as the code reads it: \<^verbatim>\<open>el.get("type")\<close>,
  \<^verbatim>\<open>el.get("id")\<close>, \<^verbatim>\<open>el.get("lat")\<close>, \<^verbatim>\<open>el.get("lon")\<close>, \<^verbatim>\<open>el.get("center")\<close>
  and \<^verbatim>\<open>el.get("tags")\<close>. A missing key is \<open>None\<close>. The type \<open>'c\<close> is the type of a
  JSON coordinate.
\<close>

record 'c center =
  c_lat :: "'c option"
  c_lon :: "'c option"

record 'c element =
  el_type :: "string option"
  el_id :: "int option"
  el_lat :: "'c option"
  el_lon :: "'c option"
  el_center :: "'c center option"
  el_tags :: "(string \<rightharpoonup> string) option"

section \<open>The Overpass client\<close>

definition OVERPASS_ENDPOINTS :: "string list" where
  "OVERPASS_ENDPOINTS =
     [''https://overpass-api.de/api/interpreter'',
      ''https://overpass.kumi.systems/api/interpreter'',
      ''https://overpass.nchc.org.tw/api/interpreter'']"

text \<open>
  What one \<^verbatim>\<open>requests.post\<close> followed by \<^verbatim>\<open>r.json()\<close> does: a response with its status
  code and decoded body (the value of the key \<^verbatim>\<open>"elements"\<close>, \<open>None\<close> when the body has
  no such key), or a \<^verbatim>\<open>requests.RequestException\<close> with the name of its class and its
  message.
\<close>

datatype 'c post_outcome =
    Response nat "'c element list option"
  | RequestException string string

text \<open>
  The outside world is the sequence of outcomes of the requests of one run: request
  number \<open>i\<close> (counted from 0) gets \<open>net i\<close>. The state counts the requests and logs the
  endpoints posted to and the arguments of \<^verbatim>\<open>time.sleep\<close>.
\<close>

record io_state =
  requests :: nat
  posted :: "string list"
  slept :: "nat list"

definition post :: "(nat \<Rightarrow> 'c post_outcome) \<Rightarrow> string \<Rightarrow> io_state \<Rightarrow> 'c post_outcome \<times> io_state" where
  "post net endpoint st =
     (net (requests st), st\<lparr>requests := requests st + 1, posted := posted st @ [endpoint]\<rparr>)"

definition sleep :: "nat \<Rightarrow> io_state \<Rightarrow> io_state" where
  "sleep secs st = st\<lparr>slept := slept st @ [secs]\<rparr>"

datatype error = RuntimeError string | ZeroDivisionError | ValueError

text \<open>
  The inner loop \<^verbatim>\<open>for attempt in range(1, max_attempts + 1)\<close> over the attempts still to
  make. \<open>Inr\<close> is the \<^verbatim>\<open>return r.json()\<close>; \<open>Inl\<close> is the loop running to its end, with the
  value of \<^verbatim>\<open>last_err\<close>.
\<close>

fun try_attempts ::
  "(nat \<Rightarrow> 'c post_outcome) \<Rightarrow> string \<Rightarrow> nat list \<Rightarrow> string option \<Rightarrow> io_state
   \<Rightarrow> (string option + 'c element list option) \<times> io_state" where
  "try_attempts net endpoint [] last_err st = (Inl last_err, st)"
| "try_attempts net endpoint (attempt # rest) last_err st =
     (case post net endpoint st of
        (Response status_code data, st1) \<Rightarrow>
          if status_code = 200 then (Inr data, st1)
          else try_attempts net endpoint rest
                 (Some (endpoint @ '' HTTP '' @ str_nat status_code)) (sleep (2 ^ attempt) st1)
      | (RequestException name msg, st1) \<Rightarrow>
          try_attempts net endpoint rest
            (Some (endpoint @ '' '' @ name @ '': '' @ msg)) (sleep (2 ^ attempt) st1))"

text \<open>The outer loop \<^verbatim>\<open>for endpoint in OVERPASS_ENDPOINTS\<close>.\<close>

fun try_endpoints ::
  "(nat \<Rightarrow> 'c post_outcome) \<Rightarrow> string list \<Rightarrow> nat \<Rightarrow> string option \<Rightarrow> io_state
   \<Rightarrow> (string option + 'c element list option) \<times> io_state" where
  "try_endpoints net [] max_attempts last_err st = (Inl last_err, st)"
| "try_endpoints net (endpoint # rest) max_attempts last_err st =
     (case try_attempts net endpoint [1 ..< max_attempts + 1] last_err st of
        (Inr data, st1) \<Rightarrow> (Inr data, st1)
      | (Inl last_err1, st1) \<Rightarrow> try_endpoints net rest max_attempts last_err1 st1)"

definition str_opt :: "string option \<Rightarrow> string" where
  \<comment> \<open>the f-string rendering of \<^verbatim>\<open>last_err\<close>, which is \<^verbatim>\<open>None\<close> or a string\<close>
  "str_opt x = (case x of None \<Rightarrow> ''None'' | Some s \<Rightarrow> s)"

definition overpass_post_with_retries ::
  "(nat \<Rightarrow> 'c post_outcome) \<Rightarrow> nat \<Rightarrow> io_state \<Rightarrow> (error + 'c element list option) \<times> io_state" where
  "overpass_post_with_retries net max_attempts st =
     (case try_endpoints net OVERPASS_ENDPOINTS max_attempts None st of
        (Inr data, st1) \<Rightarrow> (Inr data, st1)
      | (Inl last_err, st1) \<Rightarrow>
          (Inl (RuntimeError (''Overpass failed after retries. Last error: '' @ str_opt last_err)), st1))"

section \<open>Tiled fetch and de-duplication of elements\<close>

definition el_key :: "'c element \<Rightarrow> string option \<times> int option" where
  "el_key el = (el_type el, el_id el)"

text \<open>
  The loop \<^verbatim>\<open>for el in elements\<close> of \<^verbatim>\<open>overpass_fetch_restaurants_tiled\<close>, on the pair
  \<^verbatim>\<open>(all_elements, seen_ids)\<close>.
\<close>

fun dedupe_elements ::
  "'c element list \<Rightarrow> 'c element list \<times> (string option \<times> int option) set
   \<Rightarrow> 'c element list \<times> (string option \<times> int option) set" where
  "dedupe_elements [] acc = acc"
| "dedupe_elements (el # els) (all_elements, seen_ids) =
     (if el_key el \<in> seen_ids then dedupe_elements els (all_elements, seen_ids)
      else dedupe_elements els (all_elements @ [el], insert (el_key el) seen_ids))"

definition get_elements :: "'c element list option \<Rightarrow> 'c element list" where
  \<comment> \<open>\<^verbatim>\<open>data.get("elements", [])\<close>\<close>
  "get_elements data = (case data of None \<Rightarrow> [] | Some els \<Rightarrow> els)"

text \<open>
  The loop \<^verbatim>\<open>for i, tb in enumerate(tiles, start=1)\<close>. The text of the query does not
  change what the model of the network answers, so the tile itself is not read. A
  \<^verbatim>\<open>RuntimeError\<close> of the fetch leaves the loop and the function.
\<close>

fun fetch_tiles ::
  "(nat \<Rightarrow> 'c post_outcome) \<Rightarrow> 't list \<Rightarrow> 'c element list \<times> (string option \<times> int option) set
   \<Rightarrow> io_state \<Rightarrow> (error + 'c element list) \<times> io_state" where
  "fetch_tiles net [] acc st = (Inr (fst acc), st)"
| "fetch_tiles net (tb # tiles) acc st =
     (case overpass_post_with_retries net 4 st of
        (Inl err, st1) \<Rightarrow> (Inl err, st1)
      | (Inr data, st1) \<Rightarrow>
          fetch_tiles net tiles (dedupe_elements (get_elements data) acc) (sleep 1 st1))"

text \<open>
  The element lists that the tile fetches of the same run return, in fetch order (up to
  the first fetch that fails): what \<^verbatim>\<open>elements\<close> is bound to in each round of the loop.
\<close>

fun tile_element_lists ::
  "(nat \<Rightarrow> 'c post_outcome) \<Rightarrow> 't list \<Rightarrow> io_state \<Rightarrow> 'c element list list" where
  "tile_element_lists net [] st = []"
| "tile_element_lists net (tb # tiles) st =
     (case overpass_post_with_retries net 4 st of
        (Inl err, st1) \<Rightarrow> []
      | (Inr data, st1) \<Rightarrow> get_elements data # tile_element_lists net tiles (sleep 1 st1))"

section \<open>Keeping the first occurrence\<close>

text \<open>
  The scheme both de-duplication loops of the program follow, in the words of the
  specification: walk the list once with a seen-set of keys, keep an item whose key is new,
  drop an item whose key was seen.
\<close>

fun keep_first :: "('a \<Rightarrow> 'k) \<Rightarrow> 'a list \<Rightarrow> 'a list \<times> 'k set \<Rightarrow> 'a list \<times> 'k set" where
  "keep_first key [] acc = acc"
| "keep_first key (x # xs) (kept, seen) =
     (if key x \<in> seen then keep_first key xs (kept, seen)
      else keep_first key xs (kept @ [x], insert (key x) seen))"

section \<open>The retry protocol as a schedule\<close>

text \<open>
  The protocol in the words of the specification: the pairs (mirror, attempt) in the order
  they are tried, the test for a successful outcome, the detail kept of a failed one, and
  the loop over the flat schedule.
\<close>

definition retry_schedule :: "string list \<Rightarrow> nat \<Rightarrow> (string \<times> nat) list" where
  "retry_schedule endpoints max_attempts =
     concat (map (\<lambda>endpoint. map (Pair endpoint) [1 ..< max_attempts + 1]) endpoints)"

definition is_ok :: "'c post_outcome \<Rightarrow> bool" where
  "is_ok out = (case out of Response status_code data \<Rightarrow> status_code = 200 | RequestException name msg \<Rightarrow> False)"

definition err_detail :: "string \<Rightarrow> 'c post_outcome \<Rightarrow> string" where
  "err_detail endpoint out =
     (case out of
        Response status_code data \<Rightarrow> endpoint @ '' HTTP '' @ str_nat status_code
      | RequestException name msg \<Rightarrow> endpoint @ '' '' @ name @ '': '' @ msg)"

fun run_schedule ::
  "(nat \<Rightarrow> 'c post_outcome) \<Rightarrow> (string \<times> nat) list \<Rightarrow> string option \<Rightarrow> io_state
   \<Rightarrow> (string option + 'c element list option) \<times> io_state" where
  "run_schedule net [] last_err st = (Inl last_err, st)"
| "run_schedule net ((endpoint, attempt) # rest) last_err st =
     (case post net endpoint st of
        (out, st1) \<Rightarrow>
          (case out of
             Response status_code data \<Rightarrow>
               if status_code = 200 then (Inr data, st1)
               else run_schedule net rest (Some (err_detail endpoint out)) (sleep (2 ^ attempt) st1)
           | RequestException name msg \<Rightarrow>
               run_schedule net rest (Some (err_detail endpoint out)) (sleep (2 ^ attempt) st1)))"

section \<open>Example inputs\<close>

definition ex_node :: "int \<Rightarrow> string \<Rightarrow> int element" where
  "ex_node i name =
     \<lparr>el_type = Some ''node'', el_id = Some i, el_lat = Some 33, el_lon = Some 73,
      el_center = None, el_tags = Some [''name'' \<mapsto> name]\<rparr>"

definition ex_way :: "int \<Rightarrow> string \<Rightarrow> int element" where
  "ex_way i name =
     \<lparr>el_type = Some ''way'', el_id = Some i, el_lat = None, el_lon = None,
      el_center = Some \<lparr>c_lat = Some 33, c_lon = Some 73\<rparr>, el_tags = Some [''name'' \<mapsto> name]\<rparr>"

text \<open>
  Two tiles, the second answered at its second attempt. Node 1 and way 1 share the id and
  differ in kind; way 1 and node 1 come again in the second tile.
\<close>

definition ex_tiles_net :: "nat \<Rightarrow> int post_outcome" where
  "ex_tiles_net i =
     (if i = 0 then Response 200 (Some [ex_node 1 ''A'', ex_way 1 ''W''])
      else if i = 1 then Response 503 None
      else Response 200 (Some [ex_way 1 ''W again'', ex_node 3 ''C'', ex_node 1 ''A again'']))"

section \<open>URL normalisation\<close>

definition is_alpha :: "char \<Rightarrow> bool" where
  "is_alpha c \<longleftrightarrow> c \<in> set ''abcdefghijklmnopqrstuvwxyzABCDEFGHIJKLMNOPQRSTUVWXYZ''"

definition is_digit :: "char \<Rightarrow> bool" where
  "is_digit c \<longleftrightarrow> c \<in> set ''0123456789''"

definition scheme_char :: "char \<Rightarrow> bool" where
  "scheme_char c \<longleftrightarrow> is_alpha c \<or> is_digit c \<or> c \<in> set ''+-.''"

text \<open>
  The two components of \<^verbatim>\<open>urllib.parse.urlparse\<close> that \<^verbatim>\<open>normalize_url\<close> reads, the
  scheme and the netloc, as \<^verbatim>\<open>urlsplit\<close> computes them on ASCII input: leading control
  characters and blanks are dropped, TAB, CR and LF are removed, a leading run of scheme
  characters before the first colon is the scheme, and the netloc runs from \<^verbatim>\<open>//\<close> to the
  next \<^verbatim>\<open>/\<close>, \<^verbatim>\<open>?\<close> or \<^verbatim>\<open>#\<close>. \<open>None\<close> is the \<^verbatim>\<open>ValueError\<close> for unbalanced
  brackets in the netloc. The further \<^verbatim>\<open>ValueError\<close> of Python 3.11.4 and later, for a
  bracketed host that is not an IP literal, is not modelled: on such a URL the model
  returns the components where those versions raise.
\<close>

definition urlparse :: "string \<Rightarrow> (string \<times> string) option" where
  "urlparse url0 =
     (let url = filter (\<lambda>c. c \<notin> set [CHR 0x09, CHR 0x0D, CHR 0x0A]) (dropWhile (\<lambda>c. of_char c \<le> (32 :: nat)) url0);
          pre = takeWhile (\<lambda>c. c \<noteq> CHR '':'') url;
          has_scheme = (length pre < length url \<and> pre \<noteq> [] \<and> is_alpha (hd pre) \<and> list_all scheme_char pre);
          scheme = (if has_scheme then lower pre else []);
          rest = (if has_scheme then drop (length pre + 1) url else url);
          netloc = (if take 2 rest = ''//''
                    then takeWhile (\<lambda>c. c \<notin> set ''/?#'') (drop 2 rest) else [])
      in if (CHR ''['' \<in> set netloc \<and> CHR '']'' \<notin> set netloc)
            \<or> (CHR '']'' \<in> set netloc \<and> CHR ''['' \<notin> set netloc)
         then None
         else Some (scheme, netloc))"

definition normalize_url :: "string \<Rightarrow> string option" where
  "normalize_url url0 =
     (if url0 = [] then None
      else let url1 = strip url0 in
        if url1 = [] then None
        else let url = (if \<not> (startswith url1 ''http://'' \<or> startswith url1 ''https://'')
                        then ''https://'' @ url1 else url1) in
          (case urlparse url of
             None \<Rightarrow> None
           | Some (scheme, netloc) \<Rightarrow>
               if scheme \<notin> set [''http'', ''https''] then None
               else if netloc = [] then None
               else Some url))"

section \<open>Record normalisation\<close>

record 'c restaurant =
  r_name :: string
  r_address :: string
  r_phone :: string
  r_website :: string
  r_lat :: "'c option"
  r_lon :: "'c option"
  r_source :: string
  r_osm_type :: string
  r_osm_id :: "int option"

text \<open>
  Truth value of an optional string, \<^verbatim>\<open>a or b\<close>, and \<^verbatim>\<open>a or ""\<close> read as a string.
\<close>

definition truthy :: "string option \<Rightarrow> bool" where
  "truthy v \<longleftrightarrow> (case v of None \<Rightarrow> False | Some s \<Rightarrow> s \<noteq> [])"

definition py_or :: "string option \<Rightarrow> string option \<Rightarrow> string option" where
  "py_or a b = (if truthy a then a else b)"

definition or_empty :: "string option \<Rightarrow> string" where
  "or_empty a = (case a of None \<Rightarrow> [] | Some s \<Rightarrow> s)"

fun join :: "string \<Rightarrow> string list \<Rightarrow> string" where
  "join sep [] = []"
| "join sep [x] = x"
| "join sep (x # y # ys) = x @ sep @ join sep (y # ys)"

fun address_parts :: "(string \<rightharpoonup> string) \<Rightarrow> string list \<Rightarrow> string list" where
  "address_parts tags [] = []"
| "address_parts tags (k # ks) =
     (case tags k of
        None \<Rightarrow> address_parts tags ks
      | Some v \<Rightarrow> if v \<noteq> [] then v # address_parts tags ks else address_parts tags ks)"

definition extract_address :: "(string \<rightharpoonup> string) \<Rightarrow> string" where
  "extract_address tags =
     join '', '' (address_parts tags [''addr:housenumber'', ''addr:street'', ''addr:suburb'', ''addr:city''])"

definition get_tags :: "'c element \<Rightarrow> (string \<rightharpoonup> string)" where
  "get_tags el = (case el_tags el of None \<Rightarrow> Map.empty | Some tags \<Rightarrow> tags)"

definition get_center :: "'c element \<Rightarrow> 'c center" where
  "get_center el = (case el_center el of None \<Rightarrow> \<lparr>c_lat = None, c_lon = None\<rparr> | Some c \<Rightarrow> c)"

text \<open>
  The body of the loop \<^verbatim>\<open>for el in elements\<close> of \<^verbatim>\<open>main\<close> up to the dictionary it
  appends: \<open>None\<close> is the \<^verbatim>\<open>continue\<close> for a missing name. An absent coordinate, written
  as the empty string in the row, is \<open>None\<close>.
\<close>

definition normalize_element :: "'c element \<Rightarrow> 'c restaurant option" where
  "normalize_element el =
     (let tags = get_tags el; name = tags ''name'' in
      if \<not> truthy name then None
      else
        let website0 = py_or (py_or (tags ''website'') (tags ''contact:website'')) (tags ''url'');
            website = (if truthy website0 then normalize_url (or_empty website0) else None);
            phone = or_empty (py_or (py_or (tags ''phone'') (tags ''contact:phone'')) (Some []));
            address = extract_address tags;
            lat0 = el_lat el;
            lon0 = el_lon el;
            lat = (if lat0 = None \<or> lon0 = None then c_lat (get_center el) else lat0);
            lon = (if lat0 = None \<or> lon0 = None then c_lon (get_center el) else lon0)
        in Some \<lparr>r_name = or_empty name, r_address = address, r_phone = phone,
                  r_website = or_empty (py_or website (Some [])),
                  r_lat = lat, r_lon = lon, r_source = ''OSM/Overpass'',
                  r_osm_type = or_empty (el_type el), r_osm_id = el_id el\<rparr>)"




definition ex_cafe :: "int element" where
  "ex_cafe =
     \<lparr>el_type = Some ''node'', el_id = Some 1, el_lat = Some 33, el_lon = Some 73,
      el_center = None, el_tags = Some [''name'' \<mapsto> ''Cafe X'', ''website'' \<mapsto> ''cafex.com'']\<rparr>"

definition ex_blank_name :: "int element" where
  "ex_blank_name =
     \<lparr>el_type = Some ''node'', el_id = Some 7, el_lat = Some 33, el_lon = Some 73,
      el_center = None, el_tags = Some [''name'' \<mapsto> '''', ''phone'' \<mapsto> ''051-1234567'']\<rparr>"

definition ex_cafe_way :: "int element" where
  "ex_cafe_way =
     \<lparr>el_type = Some ''way'', el_id = Some 2, el_lat = None, el_lon = None,
      el_center = Some \<lparr>c_lat = Some 33, c_lon = Some 73\<rparr>,
      el_tags = Some [''name'' \<mapsto> '' CAFE x'', ''url'' \<mapsto> ''https://CafeX.com'',
                      ''phone'' \<mapsto> ''051'']\<rparr>"

section \<open>Python floats\<close>

text \<open>
  A finite \<^verbatim>\<open>float\<close> is the rational number it denotes. Every arithmetic operation is
  the exact operation followed by \<open>rd\<close>, the rounding of IEEE 754 binary64 to the nearest
  double, ties to even: 53 significant bits, and the fixed spacing \<open>2 ^ -1074\<close> in the
  subnormal range. Overflow to infinity is not modelled.
\<close>

type_synonym pyfloat = rat

definition pow2 :: "int \<Rightarrow> rat" where
  "pow2 e = (if 0 \<le> e then 2 ^ nat e else 1 / 2 ^ nat (- e))"

function bit_length :: "int \<Rightarrow> int" where
  \<comment> \<open>\<^verbatim>\<open>int.bit_length\<close> of a non-negative integer\<close>
  "bit_length i = (if i \<le> 0 then 0 else 1 + bit_length (i div 2))"
  by pat_completeness auto
termination
  by (relation "measure nat") auto

declare bit_length.simps [simp del]

definition ilog2 :: "rat \<Rightarrow> int" where
  \<comment> \<open>the exponent \<open>e\<close> with \<open>2 ^ e \<le> x < 2 ^ (e + 1)\<close>, for \<open>0 < x\<close>\<close>
  "ilog2 x =
     (if 1 \<le> x then bit_length \<lfloor>x\<rfloor> - 1
      else let k = bit_length \<lfloor>1 / x\<rfloor> in if pow2 (1 - k) \<le> x then 1 - k else - k)"

definition round_half_even :: "rat \<Rightarrow> int" where
  "round_half_even x =
     (let f = \<lfloor>x\<rfloor>; d = x - of_int f in
      if d < 1 / 2 then f else if 1 / 2 < d then f + 1 else if even f then f else f + 1)"

definition rd :: "rat \<Rightarrow> pyfloat" where
  "rd x =
     (if x = 0 then 0
      else let e = max (ilog2 \<bar>x\<bar> - 52) (- 1074) in of_int (round_half_even (x / pow2 e)) * pow2 e)"

text \<open>The exponent of the spacing of the doubles around \<open>x\<close>.\<close>

definition expo :: "rat \<Rightarrow> int" where
  "expo x = max (ilog2 \<bar>x\<bar> - 52) (- 1074)"

definition fadd :: "pyfloat \<Rightarrow> pyfloat \<Rightarrow> pyfloat" where
  "fadd x y = rd (x + y)"

definition fsub :: "pyfloat \<Rightarrow> pyfloat \<Rightarrow> pyfloat" where
  "fsub x y = rd (x - y)"

definition fmul :: "pyfloat \<Rightarrow> pyfloat \<Rightarrow> pyfloat" where
  "fmul x y = rd (x * y)"

definition fdiv :: "pyfloat \<Rightarrow> pyfloat \<Rightarrow> pyfloat" where
  "fdiv x y = rd (x / y)"

definition float_of_int :: "int \<Rightarrow> pyfloat" where
  "float_of_int i = rd (of_int i)"

text \<open>
  A decimal literal of the source: \<open>float_lit m d\<close> is the float that Python reads for the
  fraction \<open>m / d\<close> with \<open>d\<close> a power of ten, as \<^verbatim>\<open>0.85\<close> is \<open>float_lit 85 100\<close>.
\<close>

definition float_lit :: "int \<Rightarrow> int \<Rightarrow> pyfloat" where
  "float_lit m d = rd (of_int m / of_int d)"

section \<open>The tiler\<close>

text \<open>
  A bounding box is the tuple \<^verbatim>\<open>(s, w, n, e)\<close> of floats; \<^verbatim>\<open>rows\<close> and \<^verbatim>\<open>cols\<close> are
  Python integers, converted to float by the mixed arithmetic. Division by a zero count
  raises \<^verbatim>\<open>ZeroDivisionError\<close>; a negative count gives empty ranges.
\<close>

definition tile_bbox ::
  "pyfloat \<times> pyfloat \<times> pyfloat \<times> pyfloat \<Rightarrow> int \<Rightarrow> int
   \<Rightarrow> error + (pyfloat \<times> pyfloat \<times> pyfloat \<times> pyfloat) list" where
  "tile_bbox bbox rows cols =
     (case bbox of (s, w, n, e) \<Rightarrow>
        if rows = 0 then Inl ZeroDivisionError
        else let lat_step = fdiv (fsub n s) (float_of_int rows) in
          if cols = 0 then Inl ZeroDivisionError
          else let lon_step = fdiv (fsub e w) (float_of_int cols) in
            Inr (concat (map (\<lambda>r. map (\<lambda>c.
                   (fadd s (fmul (float_of_int r) lat_step),
                    fadd w (fmul (float_of_int c) lon_step),
                    fadd s (fmul (float_of_int (r + 1)) lat_step),
                    fadd w (fmul (float_of_int (c + 1)) lon_step)))
                 [0 .. cols - 1]) [0 .. rows - 1])))"

definition TILE_ROWS :: int where
  "TILE_ROWS = 3"

definition TILE_COLS :: int where
  "TILE_COLS = 3"

definition overpass_fetch_restaurants_tiled ::
  "(nat \<Rightarrow> 'c post_outcome) \<Rightarrow> pyfloat \<times> pyfloat \<times> pyfloat \<times> pyfloat \<Rightarrow> io_state
   \<Rightarrow> (error + 'c element list) \<times> io_state" where
  "overpass_fetch_restaurants_tiled net main_bbox st =
     (case tile_bbox main_bbox TILE_ROWS TILE_COLS of
        Inl err \<Rightarrow> (Inl err, st)
      | Inr tiles \<Rightarrow> fetch_tiles net tiles ([], {}) st)"

text \<open>
  The \<open>i\<close>-th of the \<open>k + 1\<close> grid lines between \<open>lo\<close> and \<open>hi\<close>, as the tiler computes
  every edge of a tile.
\<close>

definition grid_line :: "pyfloat \<Rightarrow> pyfloat \<Rightarrow> int \<Rightarrow> int \<Rightarrow> pyfloat" where
  "grid_line lo hi k i = fadd lo (fmul (float_of_int i) (fdiv (fsub hi lo) (float_of_int k)))"

section \<open>The website classifier\<close>

text \<open>
  The three searches \<^verbatim>\<open>PLAYSTORE_RE.search\<close>, \<^verbatim>\<open>APPLE_APPS_RE.search\<close> and
  \<^verbatim>\<open>APP_TEXT_HINT_RE.search\<close>, each with \<^verbatim>\<open>re.I\<close>, written out for the three patterns
  \<^verbatim>\<open>https?://play\.google\.com/store/apps/details\?id=[A-Za-z0-9\._]+\<close>,
  \<^verbatim>\<open>https?://apps\.apple\.com/\<close> and
  \<^verbatim>\<open>\b(download\s+our\s+app|get\s+the\s+app|our\s+app)\b\<close>: a search succeeds when the
  pattern matches at the start of some suffix of the string.
\<close>

fun tails :: "'a list \<Rightarrow> 'a list list" where
  "tails [] = [[]]"
| "tails (x # xs) = (x # xs) # tails xs"

definition id_char :: "char \<Rightarrow> bool" where
  "id_char c \<longleftrightarrow> is_alpha c \<or> is_digit c \<or> c \<in> set ''._''"

definition word_char :: "char \<Rightarrow> bool" where
  "word_char c \<longleftrightarrow> is_alpha c \<or> is_digit c \<or> c = CHR ''_''"

definition playstore_at :: "string \<Rightarrow> bool" where
  "playstore_at t \<longleftrightarrow>
     list_ex (\<lambda>p. startswith (lower t) p \<and> list_ex id_char (take 1 (drop (length p) t)))
       [''http://play.google.com/store/apps/details?id='',
        ''https://play.google.com/store/apps/details?id='']"

definition PLAYSTORE_RE_search :: "string \<Rightarrow> bool" where
  "PLAYSTORE_RE_search h \<longleftrightarrow> list_ex playstore_at (tails h)"

definition APPLE_APPS_RE_search :: "string \<Rightarrow> bool" where
  "APPLE_APPS_RE_search h \<longleftrightarrow>
     list_ex (\<lambda>t. startswith (lower t) ''http://apps.apple.com/''
                 \<or> startswith (lower t) ''https://apps.apple.com/'') (tails h)"

text \<open>
  A phrase is its words separated by \<^verbatim>\<open>\s+\<close>; the result is the text after the match.
\<close>

fun match_phrase :: "string list \<Rightarrow> string \<Rightarrow> string option" where
  "match_phrase [] t = Some t"
| "match_phrase [w] t = (if startswith (lower t) w then Some (drop (length w) t) else None)"
| "match_phrase (w # v # ws) t =
     (if startswith (lower t) w \<and> list_ex is_space (take 1 (drop (length w) t))
      then match_phrase (v # ws) (dropWhile is_space (drop (length w) t))
      else None)"

definition hint_at :: "string \<Rightarrow> bool" where
  \<comment> \<open>one of the three phrases matches here and a word boundary follows it\<close>
  "hint_at t \<longleftrightarrow>
     list_ex (\<lambda>ws. case match_phrase ws t of
                     None \<Rightarrow> False
                   | Some rest \<Rightarrow> \<not> list_ex word_char (take 1 rest))
       [[''download'', ''our'', ''app''], [''get'', ''the'', ''app''], [''our'', ''app'']]"

fun hint_search :: "bool \<Rightarrow> string \<Rightarrow> bool" where
  \<comment> \<open>\<open>after_word\<close>: the character before this position is a word character\<close>
  "hint_search after_word [] = False"
| "hint_search after_word (c # cs) =
     ((\<not> after_word \<and> hint_at (c # cs)) \<or> hint_search (word_char c) cs)"

definition APP_TEXT_HINT_RE_search :: "string \<Rightarrow> bool" where
  "APP_TEXT_HINT_RE_search text \<longleftrightarrow> hint_search False text"

text \<open>
  What the parsed page gives the classifier: the \<^verbatim>\<open>href\<close> values of the elements that
  \<^verbatim>\<open>soup.select("a[href]")\<close> finds, in document order, and the text of
  \<^verbatim>\<open>soup.get_text(" ", strip=True)\<close>.
\<close>

record html_page =
  anchors :: "string list"
  page_text :: string

text \<open>
  What \<^verbatim>\<open>requests.get\<close> does: it raises a \<^verbatim>\<open>requests.RequestException\<close> or another
  \<^verbatim>\<open>Exception\<close> (given by the name of its class), or it returns a response with its
  status code, its final URL and what parsing its text gives: the parsed page, or the
  name of the class of the \<^verbatim>\<open>Exception\<close> that the parser raises.
\<close>

datatype fetch_outcome =
    GetRequestException string
  | GetException string
  | GetResponse nat string "string + html_page"

record app_info =
  has_android_app :: bool
  has_ios_app :: bool
  evidence_android_url :: "string option"
  evidence_ios_url :: "string option"
  app_notes :: string
  confidence :: pyfloat

text \<open>
  The loop \<^verbatim>\<open>for a in soup.select("a[href]")\<close>. \<^verbatim>\<open>urljoin\<close> is a parameter: it returns
  the joined URL or raises (\<open>Inl\<close>, with the name of the class of the exception).
\<close>

fun collect_hrefs ::
  "(string \<Rightarrow> string \<Rightarrow> string + string) \<Rightarrow> string \<Rightarrow> string list \<Rightarrow> string + string list" where
  "collect_hrefs urljoin base [] = Inr []"
| "collect_hrefs urljoin base (a # as) =
     (let href = strip a in
      if href \<noteq> [] then
        (case urljoin base href of
           Inl exn \<Rightarrow> Inl exn
         | Inr u \<Rightarrow>
             (case collect_hrefs urljoin base as of
                Inl exn \<Rightarrow> Inl exn
              | Inr hrefs \<Rightarrow> Inr (u # hrefs)))
      else collect_hrefs urljoin base as)"

definition scrape_website_for_app_links ::
  "(string \<Rightarrow> string \<Rightarrow> string + string) \<Rightarrow> (string \<Rightarrow> fetch_outcome) \<Rightarrow> string \<Rightarrow> app_info" where
  "scrape_website_for_app_links urljoin get website_url =
     (let result = \<lparr>has_android_app = False, has_ios_app = False, evidence_android_url = None,
                    evidence_ios_url = None, app_notes = [], confidence = float_lit 0 10\<rparr> in
      case normalize_url website_url of
        None \<Rightarrow> result\<lparr>app_notes := ''invalid_website_url'', confidence := float_lit 1 10\<rparr>
      | Some url \<Rightarrow>
          (case get url of
             GetRequestException exn \<Rightarrow>
               result\<lparr>app_notes := ''request_error:'' @ exn, confidence := float_lit 2 10\<rparr>
           | GetException exn \<Rightarrow>
               result\<lparr>app_notes := ''parse_error:'' @ exn, confidence := float_lit 2 10\<rparr>
           | GetResponse status_code resp_url soup \<Rightarrow>
               if 400 \<le> status_code
               then result\<lparr>app_notes := ''http_'' @ str_nat status_code, confidence := float_lit 2 10\<rparr>
               else
                 (case soup of
                    Inl exn \<Rightarrow> result\<lparr>app_notes := ''parse_error:'' @ exn, confidence := float_lit 2 10\<rparr>
                  | Inr page \<Rightarrow>
                      (case collect_hrefs urljoin resp_url (anchors page) of
                         Inl exn \<Rightarrow>
                           result\<lparr>app_notes := ''parse_error:'' @ exn, confidence := float_lit 2 10\<rparr>
                       | Inr hrefs \<Rightarrow>
                           let play = find PLAYSTORE_RE_search hrefs;
                               apple = find APPLE_APPS_RE_search hrefs;
                               result1 = (if truthy play
                                          then result\<lparr>has_android_app := True,
                                                      evidence_android_url := play\<rparr>
                                          else result);
                               result2 = (if truthy apple
                                          then result1\<lparr>has_ios_app := True,
                                                       evidence_ios_url := apple\<rparr>
                                          else result1)
                           in if has_android_app result2 \<or> has_ios_app result2
                              then result2\<lparr>app_notes := ''store_link_found_on_website'',
                                           confidence := float_lit 95 100\<rparr>
                              else if APP_TEXT_HINT_RE_search (page_text page)
                              then result2\<lparr>app_notes := ''app_text_hint_but_no_store_link'',
                                           confidence := float_lit 6 10\<rparr>
                              else result2\<lparr>app_notes := ''no_store_links_found_on_homepage'',
                                           confidence := float_lit 85 100\<rparr>))))"

section \<open>Audit rows and the no-app subset\<close>

text \<open>
  \<^verbatim>\<open>f"{x:.2f}"\<close>: the value rounded to hundredths, ties to even, with at least one digit
  before the point.
\<close>

definition fmt2 :: "pyfloat \<Rightarrow> string" where
  "fmt2 x =
     (let h = nat \<bar>round_half_even (x * 100)\<bar> in
      (if x < 0 then ''-'' else []) @ str_nat (h div 100) @ ''.''
        @ [digit_char (h div 10 mod 10), digit_char (h mod 10)])"

definition digit_val :: "char \<Rightarrow> nat" where
  "digit_val c = of_char c - 48"

definition nat_of_digits :: "string \<Rightarrow> nat" where
  "nat_of_digits ds = foldl (\<lambda>a c. 10 * a + digit_val c) 0 ds"

text \<open>
  \<^verbatim>\<open>float(s)\<close> on the decimal literals that the format above writes: blanks around, a
  sign, digits, a point, digits. The blanks that \<^verbatim>\<open>float\<close> drops are TAB, LF, VT, FF, CR
  and the space. \<open>None\<close> is the \<^verbatim>\<open>ValueError\<close>; the exponent notation, \<^verbatim>\<open>inf\<close>,
  \<^verbatim>\<open>nan\<close> and digit separators, which the format never writes, are not read.
\<close>

definition float_space :: "char \<Rightarrow> bool" where
  "float_space c \<longleftrightarrow> c \<in> set [CHR 0x09, CHR 0x0A, CHR 0x0B, CHR 0x0C, CHR 0x0D, CHR 0x20]"

definition py_float :: "string \<Rightarrow> pyfloat option" where
  "py_float s0 =
     (let s = rev (dropWhile float_space (rev (dropWhile float_space s0)));
          signed = (take 1 s = ''-'' \<or> take 1 s = ''+'');
          body = (if signed then drop 1 s else s);
          ip = takeWhile is_digit body;
          rest = dropWhile is_digit body;
          fp = drop 1 rest
      in if (rest = [] \<and> ip \<noteq> [])
            \<or> (take 1 rest = ''.'' \<and> list_all is_digit fp \<and> (ip \<noteq> [] \<or> fp \<noteq> []))
         then Some (rd ((if take 1 s = ''-'' then - 1 else 1)
                        * of_nat (nat_of_digits (ip @ fp)) / 10 ^ length fp))
         else None)"

text \<open>
  A row of the audit: the dictionary \<^verbatim>\<open>{**r, ...}\<close>, the restaurant extended by the
  flattened verdict.
\<close>

record 'c audit_row = "'c restaurant" +
  row_has_android_app :: int
  row_has_ios_app :: int
  row_has_any_app :: int
  row_evidence_android_url :: string
  row_evidence_ios_url :: string
  row_notes :: string
  row_confidence :: string

definition no_website_appinfo :: app_info where
  "no_website_appinfo =
     \<lparr>has_android_app = False, has_ios_app = False, evidence_android_url = None,
      evidence_ios_url = None, app_notes = ''no_website_in_osm'', confidence = float_lit 2 10\<rparr>"

text \<open>
  The body of the loop \<^verbatim>\<open>for idx, r in enumerate(restaurants, start=1)\<close>; \<open>get\<close> is what
  the network answers to the request of this round.
\<close>

definition audit_row ::
  "(string \<Rightarrow> string \<Rightarrow> string + string) \<Rightarrow> (string \<Rightarrow> fetch_outcome) \<Rightarrow> 'c restaurant
   \<Rightarrow> 'c audit_row" where
  "audit_row urljoin get r =
     (let appinfo = (if r_website r \<noteq> []
                     then scrape_website_for_app_links urljoin get (r_website r)
                     else no_website_appinfo);
          has_any_app = (has_android_app appinfo \<or> has_ios_app appinfo)
      in \<lparr>r_name = r_name r, r_address = r_address r, r_phone = r_phone r,
          r_website = r_website r, r_lat = r_lat r, r_lon = r_lon r, r_source = r_source r,
          r_osm_type = r_osm_type r, r_osm_id = r_osm_id r,
          row_has_android_app = of_bool (has_android_app appinfo),
          row_has_ios_app = of_bool (has_ios_app appinfo),
          row_has_any_app = of_bool has_any_app,
          row_evidence_android_url = or_empty (evidence_android_url appinfo),
          row_evidence_ios_url = or_empty (evidence_ios_url appinfo),
          row_notes = app_notes appinfo,
          row_confidence = fmt2 (confidence appinfo)\<rparr>)"

fun build_audit_rows ::
  "(string \<Rightarrow> string \<Rightarrow> string + string) \<Rightarrow> (nat \<Rightarrow> string \<Rightarrow> fetch_outcome) \<Rightarrow> nat
   \<Rightarrow> 'c restaurant list \<Rightarrow> 'c audit_row list" where
  "build_audit_rows urljoin web idx [] = []"
| "build_audit_rows urljoin web idx (r # rs) =
     audit_row urljoin (web idx) r # build_audit_rows urljoin web (idx + 1) rs"

definition NO_APP_CONF_THRESHOLD :: pyfloat where
  "NO_APP_CONF_THRESHOLD = float_lit 80 100"

text \<open>
  The list comprehension \<^verbatim>\<open>no_app_rows\<close>. The conjunction is evaluated left to right, so
  \<^verbatim>\<open>float\<close> reads the confidence only of a row with a website and no app, and its
  \<^verbatim>\<open>ValueError\<close> ends the comprehension.
\<close>

fun no_app_rows :: "'c audit_row list \<Rightarrow> error + 'c audit_row list" where
  "no_app_rows [] = Inr []"
| "no_app_rows (row # rows) =
     (if r_website row \<noteq> [] \<and> row_has_any_app row = 0 then
        (case py_float (row_confidence row) of
           None \<Rightarrow> Inl ValueError
         | Some c \<Rightarrow>
             (case no_app_rows rows of
                Inl err \<Rightarrow> Inl err
              | Inr out \<Rightarrow>
                  if NO_APP_CONF_THRESHOLD \<le> c
                     \<and> row_notes row \<in> set [''no_store_links_found_on_homepage'',
                                              ''app_text_hint_but_no_store_link'']
                  then Inr (row # out) else Inr out))
      else no_app_rows rows)"

definition ex_urljoin :: "string \<Rightarrow> string \<Rightarrow> string + string" where
  "ex_urljoin base href =
     (if startswith href ''http://'' \<or> startswith href ''https://'' then Inr href
      else Inr (base @ href))"

definition ex_store_page :: html_page where
  "ex_store_page =
     \<lparr>anchors = [''menu'', '' https://play.google.com/store/apps/details?id=com.cafex ''],
      page_text = ''Welcome. Download our app today''\<rparr>"

definition ex_plain_page :: html_page where
  "ex_plain_page = \<lparr>anchors = [''menu'', []], page_text = ''Welcome to Cafe X''\<rparr>"

definition ex_hint_page :: html_page where
  "ex_hint_page = \<lparr>anchors = [''menu''], page_text = ''Get  the App now''\<rparr>"

text \<open>
  A page with links to both stores and the phrase in its text, and a page where the href
  before the App-Store link has an unbalanced bracket, on which \<^verbatim>\<open>urljoin\<close> raises
  \<^verbatim>\<open>ValueError\<close>.
\<close>

definition ex_both_page :: html_page where
  "ex_both_page =
     \<lparr>anchors = [''menu'', ''https://apps.apple.com/pk/app/cafe-x/id123'',
                 ''https://Play.Google.com/Store/Apps/details?ID=com.cafex'',
                 ''https://apps.apple.com/pk/app/other/id456''],
      page_text = ''Get the app''\<rparr>"

definition ex_bracket_page :: html_page where
  "ex_bracket_page =
     \<lparr>anchors = [''menu'', ''http://[bad'', ''https://apps.apple.com/a''],
      page_text = ''Welcome to Cafe X''\<rparr>"

definition ex_urljoin_checked :: "string \<Rightarrow> string \<Rightarrow> string + string" where
  "ex_urljoin_checked base href =
     (if CHR ''['' \<in> set href \<and> CHR '']'' \<notin> set href then Inl ''ValueError''
      else ex_urljoin base href)"

definition ex_get_bracket_page :: "string \<Rightarrow> fetch_outcome" where
  "ex_get_bracket_page url = GetResponse 200 (url @ ''/'') (Inr ex_bracket_page)"

definition ex_get_both_page :: "string \<Rightarrow> fetch_outcome" where
  "ex_get_both_page url = GetResponse 200 (url @ ''/'') (Inr ex_both_page)"

text \<open>
  The no-app subset in the words of the specification: a website, no app, a confidence of
  at least the threshold, and one of the two notes codes.
\<close>

definition no_app_row :: "'c audit_row \<Rightarrow> bool" where
  "no_app_row row \<longleftrightarrow>
     r_website row \<noteq> [] \<and> row_has_any_app row = 0
     \<and> (\<exists>c. py_float (row_confidence row) = Some c \<and> NO_APP_CONF_THRESHOLD \<le> c)
     \<and> (row_notes row = ''no_store_links_found_on_homepage''
        \<or> row_notes row = ''app_text_hint_but_no_store_link'')"

definition ex_web :: "nat \<Rightarrow> string \<Rightarrow> fetch_outcome" where
  "ex_web i url =
     GetResponse 200 (url @ ''/'')
       (Inr (if i = 1 then ex_plain_page else if i = 2 then ex_hint_page else ex_store_page))"

definition ex_restaurant :: "string \<Rightarrow> string \<Rightarrow> int restaurant" where
  "ex_restaurant name website =
     \<lparr>r_name = name, r_address = [], r_phone = [], r_website = website, r_lat = Some 33,
      r_lon = Some 73, r_source = ''OSM/Overpass'', r_osm_type = ''node'', r_osm_id = Some 1\<rparr>"

definition ex_row :: "string \<Rightarrow> string \<Rightarrow> int \<Rightarrow> string \<Rightarrow> string \<Rightarrow> string \<Rightarrow> int audit_row" where
  "ex_row name website android evidence notes conf =
     \<lparr>r_name = name, r_address = [], r_phone = [], r_website = website, r_lat = Some 33,
      r_lon = Some 73, r_source = ''OSM/Overpass'', r_osm_type = ''node'', r_osm_id = Some 1,
      row_has_android_app = android, row_has_ios_app = 0, row_has_any_app = android,
      row_evidence_android_url = evidence, row_evidence_ios_url = [],
      row_notes = notes, row_confidence = conf\<rparr>"

section \<open>Keeping the first occurrence: proofs\<close>

lemma find_append_skip: "\<not> P x \<Longrightarrow> find P (as @ x # bs) = find P (as @ bs)"
  by (induction as) auto

lemma find_append_left: "\<exists>a\<in>set as. P a \<Longrightarrow> find P (as @ bs) = find P as"
  by (induction as) auto

lemma find_append_none: "find P as = None \<Longrightarrow> find P (as @ bs) = find P bs"
  by (induction as) (auto split: if_splits)

lemma keep_first_append:
  "keep_first key (xs @ ys) acc = keep_first key ys (keep_first key xs acc)"
  by (induction key xs acc rule: keep_first.induct) auto

lemma keep_first_inv:
  assumes "seen = key ` set acc" and "distinct (map key acc)"
  shows "snd (keep_first key xs (acc, seen)) = key ` set (fst (keep_first key xs (acc, seen)))
       \<and> distinct (map key (fst (keep_first key xs (acc, seen))))
       \<and> key ` set (fst (keep_first key xs (acc, seen))) = key ` set acc \<union> key ` set xs"
  using assms
proof (induction xs arbitrary: acc seen)
  case Nil
  then show ?case by simp
next
  case (Cons x xs)
  show ?case
  proof (cases "key x \<in> seen")
    case True
    with Cons.IH [OF Cons.prems] Cons.prems show ?thesis by auto
  next
    case False
    have a: "insert (key x) seen = key ` set (acc @ [x])" using Cons.prems by auto
    have b: "distinct (map key (acc @ [x]))" using Cons.prems False by auto
    from Cons.IH [OF a b] False show ?thesis by auto
  qed
qed

lemma keep_first_subseq:
  "\<exists>ys. fst (keep_first key xs (acc, seen)) = acc @ ys \<and> subseq ys xs"
proof (induction xs arbitrary: acc seen)
  case Nil
  then show ?case by simp
next
  case (Cons x xs)
  show ?case
  proof (cases "key x \<in> seen")
    case True
    from Cons.IH [of acc seen] obtain ys where
      "fst (keep_first key xs (acc, seen)) = acc @ ys" "subseq ys xs" by blast
    with True show ?thesis by (auto intro: subseq_Cons')
  next
    case False
    from Cons.IH [of "acc @ [x]" "insert (key x) seen"] obtain ys where
      "fst (keep_first key xs (acc @ [x], insert (key x) seen)) = (acc @ [x]) @ ys" "subseq ys xs"
      by blast
    with False show ?thesis by (intro exI [of _ "x # ys"]) auto
  qed
qed

lemma keep_first_first:
  assumes "seen = key ` set acc"
    and "\<forall>r\<in>set acc. find (\<lambda>e. key e = key r) acc = Some r"
  shows "\<forall>r\<in>set (fst (keep_first key xs (acc, seen))).
           find (\<lambda>e. key e = key r) (acc @ xs) = Some r"
  using assms
proof (induction xs arbitrary: acc seen)
  case Nil
  then show ?case by simp
next
  case (Cons x xs)
  show ?case
  proof (cases "key x \<in> seen")
    case True
    show ?thesis
    proof
      fix r assume "r \<in> set (fst (keep_first key (x # xs) (acc, seen)))"
      with True have r: "r \<in> set (fst (keep_first key xs (acc, seen)))" by simp
      with Cons.IH [OF Cons.prems] have f: "find (\<lambda>e. key e = key r) (acc @ xs) = Some r"
        by blast
      show "find (\<lambda>e. key e = key r) (acc @ x # xs) = Some r"
      proof (cases "key x = key r")
        case False
        then show ?thesis using f by (simp add: find_append_skip)
      next
        case same: True
        with True Cons.prems(1) have "\<exists>a\<in>set acc. key a = key r" by auto
        then show ?thesis using f by (simp add: find_append_left)
      qed
    qed
  next
    case False
    have a: "insert (key x) seen = key ` set (acc @ [x])" using Cons.prems by auto
    have b: "\<forall>r\<in>set (acc @ [x]). find (\<lambda>e. key e = key r) (acc @ [x]) = Some r"
    proof
      fix r assume "r \<in> set (acc @ [x])"
      then consider "r \<in> set acc" | "r = x" "r \<notin> set acc" by auto
      then show "find (\<lambda>e. key e = key r) (acc @ [x]) = Some r"
      proof cases
        case 1
        then have "find (\<lambda>e. key e = key r) acc = Some r" using Cons.prems(2) by blast
        moreover have "\<exists>a\<in>set acc. key a = key r" using 1 by blast
        ultimately show ?thesis by (simp add: find_append_left)
      next
        case 2
        have "\<forall>a\<in>set acc. key a \<noteq> key x" using False Cons.prems(1) by (metis imageI)
        then have "find (\<lambda>e. key e = key x) acc = None" by (simp add: find_None_iff)
        then show ?thesis using 2 by (simp add: find_append_none)
      qed
    qed
    from Cons.IH [OF a b] False show ?thesis by simp
  qed
qed

lemma dedupe_elements_keep_first: "dedupe_elements xs acc = keep_first el_key xs acc"
  by (induction xs acc rule: dedupe_elements.induct) auto

lemma fetch_tiles_dedupe:
  "fetch_tiles net tiles acc st = (Inr out, st') \<Longrightarrow>
     out = fst (keep_first el_key (concat (tile_element_lists net tiles st)) acc)"
proof (induction tiles arbitrary: acc st)
  case Nil
  then show ?case by simp
next
  case (Cons tb tiles)
  then show ?case
    by (auto simp: keep_first_append dedupe_elements_keep_first split: prod.splits sum.splits)
qed

section \<open>The retry protocol: proofs\<close>

lemma try_attempts_run:
  "try_attempts net ep as le st = run_schedule net (map (Pair ep) as) le st"
  by (induction as arbitrary: le st)
     (auto simp: err_detail_def split: prod.splits post_outcome.splits)

lemma run_schedule_append:
  "run_schedule net (xs @ ys) le st =
     (case run_schedule net xs le st of
        (Inr d, s) \<Rightarrow> (Inr d, s)
      | (Inl le', s) \<Rightarrow> run_schedule net ys le' s)"
  by (induction net xs le st rule: run_schedule.induct)
     (auto split: prod.splits post_outcome.splits sum.splits)

lemma try_endpoints_run:
  "try_endpoints net eps m le st = run_schedule net (retry_schedule eps m) le st"
proof (induction eps arbitrary: le st)
  case Nil
  then show ?case by (simp add: retry_schedule_def)
next
  case (Cons ep eps)
  have "retry_schedule (ep # eps) m = map (Pair ep) [1 ..< m + 1] @ retry_schedule eps m"
    by (simp add: retry_schedule_def)
  then show ?case
    using Cons.IH by (simp add: run_schedule_append try_attempts_run split: prod.splits sum.splits)
qed

lemma run_schedule_step:
  "\<not> is_ok (net (requests st)) \<Longrightarrow>
   run_schedule net ((ep, a) # rest) le st =
     run_schedule net rest (Some (err_detail ep (net (requests st))))
       (sleep (2 ^ a) (st\<lparr>requests := requests st + 1, posted := posted st @ [ep]\<rparr>))"
  by (cases "net (requests st)") (simp_all add: post_def is_ok_def)

lemma run_schedule_all_fail:
  "\<forall>k<length sched. \<not> is_ok (net (requests st + k)) \<Longrightarrow>
   run_schedule net sched le st =
     (Inl (if sched = [] then le
           else Some (err_detail (fst (last sched)) (net (requests st + length sched - 1)))),
      st\<lparr>requests := requests st + length sched,
         posted := posted st @ map fst sched,
         slept := slept st @ map (\<lambda>(ep, a). 2 ^ a) sched\<rparr>)"
proof (induction sched arbitrary: le st)
  case Nil
  then show ?case by simp
next
  case (Cons x rest)
  obtain ep a where x: "x = (ep, a)" by (cases x)
  define st1 where "st1 = sleep (2 ^ a) (st\<lparr>requests := requests st + 1, posted := posted st @ [ep]\<rparr>)"
  have r: "requests st1 = requests st + 1" by (simp add: st1_def sleep_def)
  have "\<forall>k<length rest. \<not> is_ok (net (requests st1 + k))"
  proof (intro allI impI)
    fix k assume "k < length rest"
    then have "Suc k < length (x # rest)" by simp
    with Cons.prems have "\<not> is_ok (net (requests st + Suc k))" by blast
    then show "\<not> is_ok (net (requests st1 + k))" by (simp add: r)
  qed
  note ih = Cons.IH [OF this, of "Some (err_detail ep (net (requests st)))"]
  have bad: "\<not> is_ok (net (requests st))" using Cons.prems by force
  have "run_schedule net (x # rest) le st =
          run_schedule net rest (Some (err_detail ep (net (requests st)))) st1"
    unfolding x st1_def using bad by (rule run_schedule_step)
  also note ih
  finally show ?case
    by (cases "rest = []") (simp_all add: x st1_def sleep_def)
qed

lemma run_schedule_first_ok:
  "k < length sched \<Longrightarrow> net (requests st + k) = Response 200 d \<Longrightarrow>
   \<forall>j<k. \<not> is_ok (net (requests st + j)) \<Longrightarrow>
   run_schedule net sched le st =
     (Inr d,
      st\<lparr>requests := requests st + (k + 1),
         posted := posted st @ map fst (take (k + 1) sched),
         slept := slept st @ map (\<lambda>(ep, a). 2 ^ a) (take k sched)\<rparr>)"
proof (induction sched arbitrary: k le st)
  case Nil
  then show ?case by simp
next
  case (Cons x rest)
  obtain ep a where x: "x = (ep, a)" by (cases x)
  show ?case
  proof (cases k)
    case 0
    with Cons.prems show ?thesis by (simp add: x post_def)
  next
    case (Suc k')
    define st1 where "st1 = sleep (2 ^ a) (st\<lparr>requests := requests st + 1, posted := posted st @ [ep]\<rparr>)"
    have r: "requests st1 = requests st + 1" by (simp add: st1_def sleep_def)
    have a1: "k' < length rest" using Cons.prems(1) Suc by simp
    have a2: "net (requests st1 + k') = Response 200 d" using Cons.prems(2) Suc by (simp add: r)
    have a3: "\<forall>j<k'. \<not> is_ok (net (requests st1 + j))"
    proof (intro allI impI)
      fix j assume "j < k'"
      then have "Suc j < k" using Suc by simp
      with Cons.prems(3) have "\<not> is_ok (net (requests st + Suc j))" by blast
      then show "\<not> is_ok (net (requests st1 + j))" by (simp add: r)
    qed
    note ih = Cons.IH [OF a1 a2 a3, of "Some (err_detail ep (net (requests st)))"]
    have bad: "\<not> is_ok (net (requests st))" using Cons.prems(3) Suc by force
    have "run_schedule net (x # rest) le st =
            run_schedule net rest (Some (err_detail ep (net (requests st)))) st1"
      unfolding x st1_def using bad by (rule run_schedule_step)
    also note ih
    finally show ?thesis
      by (simp add: x st1_def sleep_def Suc)
  qed
qed

lemma retry_schedule_default:
  "retry_schedule OVERPASS_ENDPOINTS 4 =
     [(''https://overpass-api.de/api/interpreter'', 1), (''https://overpass-api.de/api/interpreter'', 2),
      (''https://overpass-api.de/api/interpreter'', 3), (''https://overpass-api.de/api/interpreter'', 4),
      (''https://overpass.kumi.systems/api/interpreter'', 1), (''https://overpass.kumi.systems/api/interpreter'', 2),
      (''https://overpass.kumi.systems/api/interpreter'', 3), (''https://overpass.kumi.systems/api/interpreter'', 4),
      (''https://overpass.nchc.org.tw/api/interpreter'', 1), (''https://overpass.nchc.org.tw/api/interpreter'', 2),
      (''https://overpass.nchc.org.tw/api/interpreter'', 3), (''https://overpass.nchc.org.tw/api/interpreter'', 4)]"
  by (simp add: retry_schedule_def OVERPASS_ENDPOINTS_def upt_rec)

lemma is_ok_iff: "is_ok out \<longleftrightarrow> (\<exists>d. out = Response 200 d)"
  by (cases out) (auto simp: is_ok_def)

lemma overpass_post_run:
  "overpass_post_with_retries net m st =
     (case run_schedule net (retry_schedule OVERPASS_ENDPOINTS m) None st of
        (Inr data, st1) \<Rightarrow> (Inr data, st1)
      | (Inl last_err, st1) \<Rightarrow>
          (Inl (RuntimeError (''Overpass failed after retries. Last error: '' @ str_opt last_err)), st1))"
  by (simp add: overpass_post_with_retries_def try_endpoints_run)

text \<open>
  Claim C4. With the default of 4 attempts, \<^verbatim>\<open>overpass_post_with_retries\<close> posts to the
  three mirrors in priority order, 4 attempts each, and sleeps \<open>2 ^ attempt\<close> seconds after
  every failed attempt. It returns the body of the first of the 12 attempts that answers
  HTTP 200, whatever failed before, and raises the \<^verbatim>\<open>RuntimeError\<close> carrying the detail
  of the last attempt on the last mirror exactly when all 12 attempts fail.
\<close>

theorem overpass_post_with_retries_protocol:
  "map fst (retry_schedule OVERPASS_ENDPOINTS 4) =
     replicate 4 (OVERPASS_ENDPOINTS ! 0) @ replicate 4 (OVERPASS_ENDPOINTS ! 1)
       @ replicate 4 (OVERPASS_ENDPOINTS ! 2)
   \<and> map (\<lambda>(ep, a). 2 ^ a) (retry_schedule OVERPASS_ENDPOINTS 4) =
       [2, 4, 8, 16, 2, 4, 8, 16, 2, 4, 8, 16 :: nat]
   \<and> (\<forall>k d. k < 12 \<and> net (requests st + k) = Response 200 d
          \<and> (\<forall>j<k. \<not> is_ok (net (requests st + j))) \<longrightarrow>
        overpass_post_with_retries net 4 st =
          (Inr d,
           st\<lparr>requests := requests st + (k + 1),
              posted := posted st @ map fst (take (k + 1) (retry_schedule OVERPASS_ENDPOINTS 4)),
              slept := slept st
                @ map (\<lambda>(ep, a). 2 ^ a) (take k (retry_schedule OVERPASS_ENDPOINTS 4))\<rparr>))
   \<and> ((\<forall>j<12. \<not> is_ok (net (requests st + j))) \<longrightarrow>
        overpass_post_with_retries net 4 st =
          (Inl (RuntimeError (''Overpass failed after retries. Last error: ''
                  @ err_detail (OVERPASS_ENDPOINTS ! 2) (net (requests st + 11)))),
           st\<lparr>requests := requests st + 12,
              posted := posted st @ map fst (retry_schedule OVERPASS_ENDPOINTS 4),
              slept := slept st @ map (\<lambda>(ep, a). 2 ^ a) (retry_schedule OVERPASS_ENDPOINTS 4)\<rparr>))
   \<and> (isl (fst (overpass_post_with_retries net 4 st)) \<longleftrightarrow>
        (\<forall>j<12. \<not> is_ok (net (requests st + j))))"
proof -
  let ?sched = "retry_schedule OVERPASS_ENDPOINTS 4"
  have len: "length ?sched = 12" by (simp add: retry_schedule_default)
  have lst: "fst (last ?sched) = OVERPASS_ENDPOINTS ! 2"
    unfolding retry_schedule_default by (simp add: OVERPASS_ENDPOINTS_def)
  have ne: "?sched \<noteq> []" using len by auto
  have c1: "map fst ?sched =
     replicate 4 (OVERPASS_ENDPOINTS ! 0) @ replicate 4 (OVERPASS_ENDPOINTS ! 1)
       @ replicate 4 (OVERPASS_ENDPOINTS ! 2)"
    unfolding retry_schedule_default by (simp add: OVERPASS_ENDPOINTS_def numeral_eq_Suc)
  have c2: "map (\<lambda>(ep, a). 2 ^ a) ?sched = [2, 4, 8, 16, 2, 4, 8, 16, 2, 4, 8, 16 :: nat]"
    by (simp add: retry_schedule_default)
  have ok: "overpass_post_with_retries net 4 st =
          (Inr d,
           st\<lparr>requests := requests st + (k + 1),
              posted := posted st @ map fst (take (k + 1) ?sched),
              slept := slept st @ map (\<lambda>(ep, a). 2 ^ a) (take k ?sched)\<rparr>)"
    if "k < 12" "net (requests st + k) = Response 200 d"
       "\<forall>j<k. \<not> is_ok (net (requests st + j))" for k d
  proof -
    from that(1) have "k < length ?sched" by (simp add: len)
    from run_schedule_first_ok [OF this that(2) that(3), of None]
    show ?thesis by (simp add: overpass_post_run)
  qed
  have fail: "overpass_post_with_retries net 4 st =
          (Inl (RuntimeError (''Overpass failed after retries. Last error: ''
                  @ err_detail (OVERPASS_ENDPOINTS ! 2) (net (requests st + 11)))),
           st\<lparr>requests := requests st + 12,
              posted := posted st @ map fst ?sched,
              slept := slept st @ map (\<lambda>(ep, a). 2 ^ a) ?sched\<rparr>)"
    if "\<forall>j<12. \<not> is_ok (net (requests st + j))"
  proof -
    from that have "\<forall>k<length ?sched. \<not> is_ok (net (requests st + k))" by (simp add: len)
    from run_schedule_all_fail [OF this, of None]
    show ?thesis by (simp add: overpass_post_run ne lst len str_opt_def add.commute)
  qed
  have iff: "isl (fst (overpass_post_with_retries net 4 st)) \<longleftrightarrow>
        (\<forall>j<12. \<not> is_ok (net (requests st + j)))"
  proof
    assume l: "isl (fst (overpass_post_with_retries net 4 st))"
    show "\<forall>j<12. \<not> is_ok (net (requests st + j))"
    proof (rule ccontr)
      assume "\<not> (\<forall>j<12. \<not> is_ok (net (requests st + j)))"
      then have "\<exists>j. j < 12 \<and> is_ok (net (requests st + j))" by blast
      then obtain k where k: "k < 12 \<and> is_ok (net (requests st + k))"
        and least: "\<forall>j<k. \<not> (j < 12 \<and> is_ok (net (requests st + j)))"
        using exists_least_iff [of "\<lambda>j. j < 12 \<and> is_ok (net (requests st + j))"] by blast
      from k obtain d where d: "net (requests st + k) = Response 200 d" by (auto simp: is_ok_iff)
      from least k have "\<forall>j<k. \<not> is_ok (net (requests st + j))" by auto
      from ok [OF _ d this] k l show False by simp
    qed
  next
    assume "\<forall>j<12. \<not> is_ok (net (requests st + j))"
    from fail [OF this] show "isl (fst (overpass_post_with_retries net 4 st))" by simp
  qed
  from c1 c2 ok fail iff show ?thesis by blast
qed

theorem overpass_post_with_retries_protocol_witness:
  "overpass_post_with_retries
     (\<lambda>i. if i < 5 then Response 500 None else Response 200 (Some ([] :: int element list))) 4
     \<lparr>requests = 0, posted = [], slept = []\<rparr> =
     (Inr (Some []),
      \<lparr>requests = 6,
       posted = [''https://overpass-api.de/api/interpreter'', ''https://overpass-api.de/api/interpreter'',
                 ''https://overpass-api.de/api/interpreter'', ''https://overpass-api.de/api/interpreter'',
                 ''https://overpass.kumi.systems/api/interpreter'',
                 ''https://overpass.kumi.systems/api/interpreter''],
       slept = [2, 4, 8, 16, 2]\<rparr>)
   \<and> overpass_post_with_retries
     (\<lambda>i. if even i then Response 504 None else (RequestException ''Timeout'' ''timed out'' :: int post_outcome)) 4
     \<lparr>requests = 0, posted = [], slept = []\<rparr> =
     (Inl (RuntimeError ''Overpass failed after retries. Last error: https://overpass.nchc.org.tw/api/interpreter Timeout: timed out''),
      \<lparr>requests = 12,
       posted = [''https://overpass-api.de/api/interpreter'', ''https://overpass-api.de/api/interpreter'',
                 ''https://overpass-api.de/api/interpreter'', ''https://overpass-api.de/api/interpreter'',
                 ''https://overpass.kumi.systems/api/interpreter'', ''https://overpass.kumi.systems/api/interpreter'',
                 ''https://overpass.kumi.systems/api/interpreter'', ''https://overpass.kumi.systems/api/interpreter'',
                 ''https://overpass.nchc.org.tw/api/interpreter'', ''https://overpass.nchc.org.tw/api/interpreter'',
                 ''https://overpass.nchc.org.tw/api/interpreter'', ''https://overpass.nchc.org.tw/api/interpreter''],
       slept = [2, 4, 8, 16, 2, 4, 8, 16, 2, 4, 8, 16]\<rparr>)"
proof -
  let ?net1 = "\<lambda>i. if i < 5 then Response 500 None else Response 200 (Some ([] :: int element list))"
  let ?net2 = "\<lambda>i. if even i then Response 504 None else (RequestException ''Timeout'' ''timed out'' :: int post_outcome)"
  let ?st = "\<lparr>requests = 0, posted = [], slept = []\<rparr>"
  have h1: "(5::nat) < 12 \<and> ?net1 (requests ?st + 5) = Response 200 (Some [])
      \<and> (\<forall>j<5. \<not> is_ok (?net1 (requests ?st + j)))"
    by (simp add: is_ok_def)
  have h2: "\<forall>j<12. \<not> is_ok (?net2 (requests ?st + j))"
    by (simp add: is_ok_def)
  from overpass_post_with_retries_protocol [of ?net1 ?st] h1
  have a: "overpass_post_with_retries ?net1 4 ?st =
          (Inr (Some []),
           ?st\<lparr>requests := requests ?st + (5 + 1),
              posted := posted ?st @ map fst (take (5 + 1) (retry_schedule OVERPASS_ENDPOINTS 4)),
              slept := slept ?st
                @ map (\<lambda>(ep, a). 2 ^ a) (take 5 (retry_schedule OVERPASS_ENDPOINTS 4))\<rparr>)"
    by blast
  from overpass_post_with_retries_protocol [of ?net2 ?st] h2
  have b: "overpass_post_with_retries ?net2 4 ?st =
          (Inl (RuntimeError (''Overpass failed after retries. Last error: ''
                  @ err_detail (OVERPASS_ENDPOINTS ! 2) (?net2 (requests ?st + 11)))),
           ?st\<lparr>requests := requests ?st + 12,
              posted := posted ?st @ map fst (retry_schedule OVERPASS_ENDPOINTS 4),
              slept := slept ?st @ map (\<lambda>(ep, a). 2 ^ a) (retry_schedule OVERPASS_ENDPOINTS 4)\<rparr>)"
    by blast
  show ?thesis
    unfolding a b retry_schedule_default
    by (simp add: err_detail_def OVERPASS_ENDPOINTS_def)
qed

lemma el_key_pair: "el_key = (\<lambda>e. (el_type e, el_id e))"
  by (rule ext) (simp add: el_key_def)

lemma el_key_eq: "(\<lambda>e. el_key e = el_key r) = (\<lambda>e. el_type e = el_type r \<and> el_id e = el_id r)"
  by (rule ext) (simp add: el_key_def)

text \<open>
  Claim C6. When the tiled fetch returns, its result holds every identity, the pair of
  \<^verbatim>\<open>el.get("type")\<close> and \<^verbatim>\<open>el.get("id")\<close>, of the concatenated element lists of the tiles
  exactly once: the pairs of the result are pairwise different and are the pairs of the
  concatenation, the result is a subsequence of the concatenation, and each of its
  elements is the first one of the concatenation with its kind and id. Elements of
  different kinds with the same id are both kept.
\<close>

theorem fetch_tiles_first_seen:
  assumes "fetch_tiles net tiles ([], {}) st = (Inr out, st')"
  shows "distinct (map (\<lambda>e. (el_type e, el_id e)) out)
       \<and> (\<lambda>e. (el_type e, el_id e)) ` set out
           = (\<lambda>e. (el_type e, el_id e)) ` set (concat (tile_element_lists net tiles st))
       \<and> subseq out (concat (tile_element_lists net tiles st))
       \<and> (\<forall>r\<in>set out.
            find (\<lambda>e. el_type e = el_type r \<and> el_id e = el_id r)
              (concat (tile_element_lists net tiles st)) = Some r)"
proof -
  let ?all = "concat (tile_element_lists net tiles st)"
  have out: "out = fst (keep_first el_key ?all ([], {}))"
    using assms by (rule fetch_tiles_dedupe)
  from keep_first_inv [of "{}" el_key "[]" ?all]
  have a: "distinct (map el_key out)" "el_key ` set out = el_key ` set ?all"
    by (simp_all add: out)
  from keep_first_subseq [of el_key ?all "[]" "{}"] have b: "subseq out ?all"
    by (simp add: out)
  from keep_first_first [of "{}" el_key "[]" ?all]
  have c: "\<forall>r\<in>set out. find (\<lambda>e. el_key e = el_key r) ?all = Some r"
    by (simp add: out)
  from a b c show ?thesis unfolding el_key_eq unfolding el_key_pair by blast
qed

lemma ex_tiles_run:
  "fetch_tiles ex_tiles_net [(), ()] ([], {}) \<lparr>requests = 0, posted = [], slept = []\<rparr> =
     (Inr [ex_node 1 ''A'', ex_way 1 ''W'', ex_node 3 ''C''],
      \<lparr>requests = 3,
       posted = [''https://overpass-api.de/api/interpreter'', ''https://overpass-api.de/api/interpreter'',
                 ''https://overpass-api.de/api/interpreter''],
       slept = [1, 2, 1]\<rparr>)"
  by (simp add: overpass_post_with_retries_def OVERPASS_ENDPOINTS_def upt_rec post_def sleep_def
      ex_tiles_net_def get_elements_def el_key_def ex_node_def ex_way_def)

lemma ex_tiles_all:
  "concat (tile_element_lists ex_tiles_net [(), ()] \<lparr>requests = 0, posted = [], slept = []\<rparr>) =
     [ex_node 1 ''A'', ex_way 1 ''W'', ex_way 1 ''W again'', ex_node 3 ''C'', ex_node 1 ''A again'']"
  by (simp add: overpass_post_with_retries_def OVERPASS_ENDPOINTS_def upt_rec post_def sleep_def
      ex_tiles_net_def get_elements_def)

theorem fetch_tiles_first_seen_witness:
  "fetch_tiles ex_tiles_net [(), ()] ([], {}) \<lparr>requests = 0, posted = [], slept = []\<rparr> =
     (Inr [ex_node 1 ''A'', ex_way 1 ''W'', ex_node 3 ''C''],
      \<lparr>requests = 3,
       posted = [''https://overpass-api.de/api/interpreter'', ''https://overpass-api.de/api/interpreter'',
                 ''https://overpass-api.de/api/interpreter''],
       slept = [1, 2, 1]\<rparr>)
   \<and> concat (tile_element_lists ex_tiles_net [(), ()] \<lparr>requests = 0, posted = [], slept = []\<rparr>) =
       [ex_node 1 ''A'', ex_way 1 ''W'', ex_way 1 ''W again'', ex_node 3 ''C'', ex_node 1 ''A again'']
   \<and> map (\<lambda>e. (el_type e, el_id e)) [ex_node 1 ''A'', ex_way 1 ''W'', ex_node 3 ''C''] =
       [(Some ''node'', Some 1), (Some ''way'', Some 1), (Some ''node'', Some 3)]
   \<and> distinct [(Some ''node'', Some (1::int)), (Some ''way'', Some 1), (Some ''node'', Some 3)]
   \<and> find (\<lambda>e. el_type e = el_type (ex_way 1 ''W'') \<and> el_id e = el_id (ex_way 1 ''W''))
        [ex_node 1 ''A'', ex_way 1 ''W'', ex_way 1 ''W again'', ex_node 3 ''C'', ex_node 1 ''A again'']
       = Some (ex_way 1 ''W'')"
proof -
  note t = fetch_tiles_first_seen [OF ex_tiles_run, unfolded ex_tiles_all]
  have m: "map (\<lambda>e. (el_type e, el_id e)) [ex_node 1 ''A'', ex_way 1 ''W'', ex_node 3 ''C''] =
       [(Some ''node'', Some 1), (Some ''way'', Some 1), (Some ''node'', Some 3)]"
    by (simp add: ex_node_def ex_way_def)
  from t have "distinct (map (\<lambda>e. (el_type e, el_id e)) [ex_node 1 ''A'', ex_way 1 ''W'', ex_node 3 ''C''])"
    by blast
  then have d: "distinct [(Some ''node'', Some (1::int)), (Some ''way'', Some 1), (Some ''node'', Some 3)]"
    unfolding m .
  from t have f: "find (\<lambda>e. el_type e = el_type (ex_way 1 ''W'') \<and> el_id e = el_id (ex_way 1 ''W''))
        [ex_node 1 ''A'', ex_way 1 ''W'', ex_way 1 ''W again'', ex_node 3 ''C'', ex_node 1 ''A again'']
       = Some (ex_way 1 ''W'')"
    by (simp only: list.set) blast
  from ex_tiles_run ex_tiles_all m d f show ?thesis by (intro conjI)
qed

section \<open>URL normalisation: the claim and the code\<close>

text \<open>
  Claim C5 says that an input whose scheme is neither http nor https is invalid. The code
  tests the literal prefixes \<^verbatim>\<open>http://\<close> and \<^verbatim>\<open>https://\<close> before it parses, and
  prepends \<^verbatim>\<open>https://\<close> to everything else, so the scheme it then checks is always
  \<^verbatim>\<open>https\<close>: an FTP address is accepted, with its own scheme pushed into the host.
\<close>

theorem normalize_url_prefixes_foreign_scheme:
  "normalize_url ''ftp://example.com'' = Some ''https://ftp://example.com''"
  by code_simp

section \<open>Record normalisation: proofs\<close>

lemma normalize_element_None:
  "normalize_element el = None \<longleftrightarrow> get_tags el ''name'' = None \<or> get_tags el ''name'' = Some []"
  by (auto simp: normalize_element_def Let_def truthy_def split: option.splits)

lemma address_parts_filter:
  "address_parts tags ks = filter (\<lambda>v. v \<noteq> []) (map (\<lambda>k. or_empty (tags k)) ks)"
  by (induction ks) (auto simp: or_empty_def split: option.splits)

lemma py_or_find2:
  "or_empty (py_or (py_or a b) (Some [])) =
     (case find truthy [a, b] of Some (Some p) \<Rightarrow> p | _ \<Rightarrow> [])"
  by (auto simp: py_or_def or_empty_def truthy_def split: option.splits)

lemma py_or_find3:
  "(let w0 = py_or (py_or a b) c in
      or_empty (py_or (if truthy w0 then normalize_url (or_empty w0) else None) (Some []))) =
     (case find truthy [a, b, c] of
        Some (Some w) \<Rightarrow> (case normalize_url w of Some u \<Rightarrow> u | None \<Rightarrow> [])
      | _ \<Rightarrow> [])"
  by (auto simp: py_or_def or_empty_def truthy_def Let_def split: option.splits)

lemma normalize_element_Some:
  assumes "normalize_element el = Some r"
  shows "Some (r_name r) = get_tags el ''name''"
    and "r_address r = join '', '' (filter (\<lambda>v. v \<noteq> [])
           (map (\<lambda>k. or_empty (get_tags el k))
              [''addr:housenumber'', ''addr:street'', ''addr:suburb'', ''addr:city'']))"
    and "r_phone r = (case find truthy [get_tags el ''phone'', get_tags el ''contact:phone''] of
                        Some (Some p) \<Rightarrow> p | _ \<Rightarrow> [])"
    and "r_website r =
           (case find truthy [get_tags el ''website'', get_tags el ''contact:website'',
                              get_tags el ''url''] of
              Some (Some w) \<Rightarrow> (case normalize_url w of Some u \<Rightarrow> u | None \<Rightarrow> [])
            | _ \<Rightarrow> [])"
    and "(r_lat r, r_lon r) =
           (if el_lat el \<noteq> None \<and> el_lon el \<noteq> None then (el_lat el, el_lon el)
            else case el_center el of Some c \<Rightarrow> (c_lat c, c_lon c) | None \<Rightarrow> (None, None))"
    and "r_source r = ''OSM/Overpass''" and "r_osm_type r = or_empty (el_type el)"
    and "r_osm_id r = el_id el"
proof -
  from assms have t: "truthy (get_tags el ''name'')"
    by (auto simp: normalize_element_def Let_def split: if_splits)
  from assms t have r: "r = \<lparr>r_name = or_empty (get_tags el ''name''),
      r_address = extract_address (get_tags el),
      r_phone = or_empty (py_or (py_or (get_tags el ''phone'') (get_tags el ''contact:phone'')) (Some [])),
      r_website = (let w0 = py_or (py_or (get_tags el ''website'') (get_tags el ''contact:website''))
                              (get_tags el ''url'') in
         or_empty (py_or (if truthy w0 then normalize_url (or_empty w0) else None) (Some []))),
      r_lat = (if el_lat el = None \<or> el_lon el = None then c_lat (get_center el) else el_lat el),
      r_lon = (if el_lat el = None \<or> el_lon el = None then c_lon (get_center el) else el_lon el),
      r_source = ''OSM/Overpass'', r_osm_type = or_empty (el_type el), r_osm_id = el_id el\<rparr>"
    by (simp add: normalize_element_def Let_def)
  show "Some (r_name r) = get_tags el ''name''"
    using t by (simp add: r truthy_def or_empty_def split: option.splits)
  show "r_address r = join '', '' (filter (\<lambda>v. v \<noteq> [])
           (map (\<lambda>k. or_empty (get_tags el k))
              [''addr:housenumber'', ''addr:street'', ''addr:suburb'', ''addr:city'']))"
    by (simp only: r restaurant.select_convs extract_address_def address_parts_filter)
  show "r_phone r = (case find truthy [get_tags el ''phone'', get_tags el ''contact:phone''] of
                        Some (Some p) \<Rightarrow> p | _ \<Rightarrow> [])"
    by (simp only: r restaurant.select_convs py_or_find2)
  show "r_website r =
           (case find truthy [get_tags el ''website'', get_tags el ''contact:website'',
                              get_tags el ''url''] of
              Some (Some w) \<Rightarrow> (case normalize_url w of Some u \<Rightarrow> u | None \<Rightarrow> [])
            | _ \<Rightarrow> [])"
    by (simp only: r restaurant.select_convs py_or_find3)
  show "(r_lat r, r_lon r) =
           (if el_lat el \<noteq> None \<and> el_lon el \<noteq> None then (el_lat el, el_lon el)
            else case el_center el of Some c \<Rightarrow> (c_lat c, c_lon c) | None \<Rightarrow> (None, None))"
    by (auto simp: r get_center_def split: option.splits)
  show "r_source r = ''OSM/Overpass''" "r_osm_type r = or_empty (el_type el)" "r_osm_id r = el_id el"
    by (simp_all add: r)
qed

lemma ex_cafe_normalized:
  "normalize_element ex_cafe =
     Some \<lparr>r_name = ''Cafe X'', r_address = [], r_phone = [], r_website = ''https://cafex.com'',
           r_lat = Some 33, r_lon = Some 73, r_source = ''OSM/Overpass'', r_osm_type = ''node'',
           r_osm_id = Some 1\<rparr>"
  by code_simp

text \<open>
  Claim C8 as stated fails on a name tag that is present and empty: the code tests the
  truth value of the tag, so the entity yields no record.
\<close>

theorem normalize_element_blank_name_dropped:
  "get_tags ex_blank_name ''name'' = Some [] \<and> normalize_element ex_blank_name = None"
  by code_simp

text \<open>
  Claim C8, amended. An entity yields no record when its name tag is missing or empty, and
  otherwise exactly one record: the address joins the non-empty address fragments in the
  fixed order with \<^verbatim>\<open>", "\<close>; the phone is the first non-empty of the two phone tags,
  else empty; the website is the first non-empty of the three website tags passed through
  \<^verbatim>\<open>normalize_url\<close>, else empty; the coordinates are the direct pair when both are
  present, else those of the centre, else absent. The node named Cafe X with website
  \<^verbatim>\<open>cafex.com\<close> gets the website \<^verbatim>\<open>https://cafex.com\<close>.
\<close>

theorem normalize_element_record:
  "(normalize_element el = None \<longleftrightarrow>
      get_tags el ''name'' = None \<or> get_tags el ''name'' = Some [])
   \<and> (\<forall>r. normalize_element el = Some r \<longrightarrow>
         Some (r_name r) = get_tags el ''name''
       \<and> r_address r = join '', '' (filter (\<lambda>v. v \<noteq> [])
           (map (\<lambda>k. or_empty (get_tags el k))
              [''addr:housenumber'', ''addr:street'', ''addr:suburb'', ''addr:city'']))
       \<and> r_phone r = (case find truthy [get_tags el ''phone'', get_tags el ''contact:phone''] of
                        Some (Some p) \<Rightarrow> p | _ \<Rightarrow> [])
       \<and> r_website r =
           (case find truthy [get_tags el ''website'', get_tags el ''contact:website'',
                              get_tags el ''url''] of
              Some (Some w) \<Rightarrow> (case normalize_url w of Some u \<Rightarrow> u | None \<Rightarrow> [])
            | _ \<Rightarrow> [])
       \<and> (r_lat r, r_lon r) =
           (if el_lat el \<noteq> None \<and> el_lon el \<noteq> None then (el_lat el, el_lon el)
            else case el_center el of Some c \<Rightarrow> (c_lat c, c_lon c) | None \<Rightarrow> (None, None)))
   \<and> (\<exists>r. normalize_element ex_cafe = Some r \<and> r_website r = ''https://cafex.com'')"
  using normalize_element_None [of el] normalize_element_Some [of el] ex_cafe_normalized
  by (intro conjI allI impI) simp_all

theorem normalize_element_record_witness:
  "normalize_element ex_cafe =
     Some \<lparr>r_name = ''Cafe X'', r_address = [], r_phone = [], r_website = ''https://cafex.com'',
           r_lat = Some 33, r_lon = Some 73, r_source = ''OSM/Overpass'', r_osm_type = ''node'',
           r_osm_id = Some 1\<rparr>
   \<and> Some ''Cafe X'' = get_tags ex_cafe ''name''
   \<and> find truthy [get_tags ex_cafe ''website'', get_tags ex_cafe ''contact:website'',
                   get_tags ex_cafe ''url''] = Some (Some ''cafex.com'')"
proof -
  have f: "find truthy [get_tags ex_cafe ''website'', get_tags ex_cafe ''contact:website'',
                   get_tags ex_cafe ''url''] = Some (Some ''cafex.com'')"
    by code_simp
  from normalize_element_record [of ex_cafe] ex_cafe_normalized f show ?thesis
    by simp
qed

section \<open>De-duplication of restaurants: proofs\<close>




lemma ex_candidates:
  "List.map_filter normalize_element [ex_cafe, ex_blank_name, ex_cafe_way] =
     [\<lparr>r_name = ''Cafe X'', r_address = [], r_phone = [], r_website = ''https://cafex.com'',
       r_lat = Some 33, r_lon = Some 73, r_source = ''OSM/Overpass'', r_osm_type = ''node'',
       r_osm_id = Some 1\<rparr>,
      \<lparr>r_name = '' CAFE x'', r_address = [], r_phone = ''051'', r_website = ''https://CafeX.com'',
       r_lat = Some 33, r_lon = Some 73, r_source = ''OSM/Overpass'', r_osm_type = ''way'',
       r_osm_id = Some 2\<rparr>]"
  by code_simp


section \<open>The website classifier: proofs\<close>

lemma PLAYSTORE_RE_search_Nil: "\<not> PLAYSTORE_RE_search []"
  by (simp add: PLAYSTORE_RE_search_def playstore_at_def startswith_def lower_def)

lemma APPLE_APPS_RE_search_Nil: "\<not> APPLE_APPS_RE_search []"
  by (simp add: APPLE_APPS_RE_search_def startswith_def lower_def)

lemma truthy_find:
  "\<not> P [] \<Longrightarrow> truthy (find P hrefs) \<longleftrightarrow> (\<exists>h\<in>set hrefs. P h)"
  by (induction hrefs) (auto simp: truthy_def)

lemma find_None_no_match: "\<not> (\<exists>h\<in>set hrefs. P h) \<Longrightarrow> find P hrefs = None"
  by (induction hrefs) auto

lemma collect_hrefs_Inr:
  "collect_hrefs urljoin base as = Inr hrefs \<Longrightarrow>
     map Inr hrefs = map (urljoin base) (filter (\<lambda>h. h \<noteq> []) (map strip as))"
  by (induction as arbitrary: hrefs) (auto simp: Let_def split: sum.splits if_splits)

lemma scrape_page:
  assumes "normalize_url website_url = Some url"
    and "get url = GetResponse status_code resp_url (Inr page)"
    and "status_code < 400"
    and "collect_hrefs urljoin resp_url (anchors page) = Inr hrefs"
  shows "scrape_website_for_app_links urljoin get website_url =
     \<lparr>has_android_app = (\<exists>h\<in>set hrefs. PLAYSTORE_RE_search h),
      has_ios_app = (\<exists>h\<in>set hrefs. APPLE_APPS_RE_search h),
      evidence_android_url = find PLAYSTORE_RE_search hrefs,
      evidence_ios_url = find APPLE_APPS_RE_search hrefs,
      app_notes =
        (if \<exists>h\<in>set hrefs. PLAYSTORE_RE_search h \<or> APPLE_APPS_RE_search h
         then ''store_link_found_on_website''
         else if APP_TEXT_HINT_RE_search (page_text page)
         then ''app_text_hint_but_no_store_link''
         else ''no_store_links_found_on_homepage''),
      confidence =
        (if \<exists>h\<in>set hrefs. PLAYSTORE_RE_search h \<or> APPLE_APPS_RE_search h
         then float_lit 95 100
         else if APP_TEXT_HINT_RE_search (page_text page)
         then float_lit 6 10
         else float_lit 85 100)\<rparr>"
proof -
  have p: "truthy (find PLAYSTORE_RE_search hrefs) \<longleftrightarrow> (\<exists>h\<in>set hrefs. PLAYSTORE_RE_search h)"
    using PLAYSTORE_RE_search_Nil by (rule truthy_find)
  have a: "truthy (find APPLE_APPS_RE_search hrefs) \<longleftrightarrow> (\<exists>h\<in>set hrefs. APPLE_APPS_RE_search h)"
    using APPLE_APPS_RE_search_Nil by (rule truthy_find)
  show ?thesis
  proof (cases "\<exists>h\<in>set hrefs. PLAYSTORE_RE_search h")
    case pt: True
    show ?thesis
    proof (cases "\<exists>h\<in>set hrefs. APPLE_APPS_RE_search h")
      case True
      with pt assms p a show ?thesis
        by (auto simp add: scrape_website_for_app_links_def Let_def)
    next
      case False
      with pt assms p a find_None_no_match [of hrefs APPLE_APPS_RE_search] show ?thesis
        by (auto simp add: scrape_website_for_app_links_def Let_def)
    qed
  next
    case pf: False
    show ?thesis
    proof (cases "\<exists>h\<in>set hrefs. APPLE_APPS_RE_search h")
      case True
      with pf assms p a find_None_no_match [of hrefs PLAYSTORE_RE_search] show ?thesis
        by (auto simp add: scrape_website_for_app_links_def Let_def)
    next
      case False
      with pf assms p a find_None_no_match [of hrefs PLAYSTORE_RE_search]
        find_None_no_match [of hrefs APPLE_APPS_RE_search] show ?thesis
        by (auto simp add: scrape_website_for_app_links_def Let_def)
    qed
  qed
qed

lemma list_ex_tails: "list_ex P (tails h) \<longleftrightarrow> (\<exists>pre t. h = pre @ t \<and> P t)"
  by (induction h) (auto simp: Cons_eq_append_conv)

lemma startswith_lower:
  "startswith (lower t) p \<longleftrightarrow> (\<exists>mid post. t = mid @ post \<and> lower mid = p)"
proof
  assume "startswith (lower t) p"
  then have "take (length p) (lower t) = p" by (simp add: startswith_def)
  then have "lower (take (length p) t) = p" by (simp add: lower_def take_map)
  moreover have "t = take (length p) t @ drop (length p) t" by simp
  ultimately show "\<exists>mid post. t = mid @ post \<and> lower mid = p" by blast
next
  assume "\<exists>mid post. t = mid @ post \<and> lower mid = p"
  then obtain mid post where "t = mid @ post" "lower mid = p" by blast
  then have "length p = length mid" "lower t = p @ lower post" by (auto simp: lower_def)
  then show "startswith (lower t) p" by (simp add: startswith_def)
qed

lemma apple_at:
  "APPLE_APPS_RE_search h \<longleftrightarrow>
     (\<exists>pre mid post. h = pre @ mid @ post
        \<and> (lower mid = ''http://apps.apple.com/'' \<or> lower mid = ''https://apps.apple.com/''))"
  unfolding APPLE_APPS_RE_search_def list_ex_tails startswith_lower by blast

lemma play_tail:
  "startswith (lower t) p \<and> list_ex q (take 1 (drop (length p) t)) \<longleftrightarrow>
     (\<exists>mid c post. t = mid @ c # post \<and> lower mid = p \<and> q c)"
proof
  assume a: "startswith (lower t) p \<and> list_ex q (take 1 (drop (length p) t))"
  then obtain mid rest where t: "t = mid @ rest" and m: "lower mid = p"
    unfolding startswith_lower by blast
  from m have "length p = length mid" by (auto simp: lower_def)
  with a t have "list_ex q (take 1 rest)" by simp
  then obtain c post where "rest = c # post" "q c" by (cases rest) auto
  with t m show "\<exists>mid c post. t = mid @ c # post \<and> lower mid = p \<and> q c" by blast
next
  assume "\<exists>mid c post. t = mid @ c # post \<and> lower mid = p \<and> q c"
  then obtain mid c post where t: "t = mid @ c # post" and m: "lower mid = p" and q: "q c"
    by blast
  from m have l: "length p = length mid" by (auto simp: lower_def)
  from t m have "startswith (lower t) p" unfolding startswith_lower by blast
  moreover from t l q have "list_ex q (take 1 (drop (length p) t))" by simp
  ultimately show "startswith (lower t) p \<and> list_ex q (take 1 (drop (length p) t))" ..
qed

lemma list_ex_two: "list_ex P [a, b] \<longleftrightarrow> P a \<or> P b"
  by simp

lemma playstore_at_iff:
  "playstore_at t \<longleftrightarrow>
     (\<exists>mid c post. t = mid @ c # post
        \<and> (lower mid = ''http://play.google.com/store/apps/details?id=''
           \<or> lower mid = ''https://play.google.com/store/apps/details?id='')
        \<and> id_char c)"
  unfolding playstore_at_def list_ex_two play_tail by blast

lemma play_at:
  "PLAYSTORE_RE_search h \<longleftrightarrow>
     (\<exists>pre mid c post. h = pre @ mid @ c # post
        \<and> (lower mid = ''http://play.google.com/store/apps/details?id=''
           \<or> lower mid = ''https://play.google.com/store/apps/details?id='')
        \<and> id_char c)"
  unfolding PLAYSTORE_RE_search_def list_ex_tails playstore_at_iff by blast

lemma scrape_href_raises:
  assumes "normalize_url website_url = Some url"
    and "get url = GetResponse status_code resp_url (Inr page)"
    and "status_code < 400"
    and "collect_hrefs urljoin resp_url (anchors page) = Inl exn"
  shows "scrape_website_for_app_links urljoin get website_url =
     \<lparr>has_android_app = False, has_ios_app = False, evidence_android_url = None,
      evidence_ios_url = None, app_notes = ''parse_error:'' @ exn, confidence = float_lit 2 10\<rparr>"
  using assms by (simp add: scrape_website_for_app_links_def)

text \<open>
  Claim C2, amended. For a page fetched with a status below 400 and parsed: when every
  stripped non-empty href joins to the final URL without an exception, giving \<open>hrefs\<close>, and
  some href matches the Play-Store or the App-Store pattern, then each flag says whether its
  pattern matched, each evidence is the first matching href, the notes are
  \<^verbatim>\<open>store_link_found_on_website\<close> and the confidence is 0.95, whatever the text of the
  page, and the notes \<^verbatim>\<open>app_text_hint_but_no_store_link\<close> (with confidence 0.6) occur only
  when no href matched either pattern; when joining an href raises, the verdict is
  \<^verbatim>\<open>parse_error:\<close> with the name of the class of the exception, confidence 0.2 and no
  flag, whatever the other hrefs are. The Play-Store pattern matches a string that holds,
  in any case of the letters, \<^verbatim>\<open>http://play.google.com/store/apps/details?id=\<close> or the
  same with \<^verbatim>\<open>https\<close>, followed by a letter, a digit, a dot or an underscore; the
  App-Store pattern matches a string that holds \<^verbatim>\<open>http://apps.apple.com/\<close> or the same
  with \<^verbatim>\<open>https\<close>, in any case of the letters.
\<close>

theorem scrape_store_link_priority:
  assumes "normalize_url website_url = Some url"
    and "get url = GetResponse status_code resp_url (Inr page)"
    and "status_code < 400"
  shows "(\<forall>hrefs. collect_hrefs urljoin resp_url (anchors page) = Inr hrefs \<longrightarrow>
       map Inr hrefs = map (urljoin resp_url) (filter (\<lambda>h. h \<noteq> []) (map strip (anchors page)))
     \<and> ((\<exists>h\<in>set hrefs. PLAYSTORE_RE_search h \<or> APPLE_APPS_RE_search h) \<longrightarrow>
         has_android_app (scrape_website_for_app_links urljoin get website_url)
           = (\<exists>h\<in>set hrefs. PLAYSTORE_RE_search h)
       \<and> evidence_android_url (scrape_website_for_app_links urljoin get website_url)
           = find PLAYSTORE_RE_search hrefs
       \<and> has_ios_app (scrape_website_for_app_links urljoin get website_url)
           = (\<exists>h\<in>set hrefs. APPLE_APPS_RE_search h)
       \<and> evidence_ios_url (scrape_website_for_app_links urljoin get website_url)
           = find APPLE_APPS_RE_search hrefs
       \<and> app_notes (scrape_website_for_app_links urljoin get website_url)
           = ''store_link_found_on_website''
       \<and> confidence (scrape_website_for_app_links urljoin get website_url) = float_lit 95 100)
     \<and> (app_notes (scrape_website_for_app_links urljoin get website_url)
           = ''app_text_hint_but_no_store_link'' \<longrightarrow>
         (\<forall>h\<in>set hrefs. \<not> PLAYSTORE_RE_search h \<and> \<not> APPLE_APPS_RE_search h)
       \<and> APP_TEXT_HINT_RE_search (page_text page)
       \<and> confidence (scrape_website_for_app_links urljoin get website_url) = float_lit 6 10))
   \<and> (\<forall>exn. collect_hrefs urljoin resp_url (anchors page) = Inl exn \<longrightarrow>
        scrape_website_for_app_links urljoin get website_url =
          \<lparr>has_android_app = False, has_ios_app = False, evidence_android_url = None,
           evidence_ios_url = None, app_notes = ''parse_error:'' @ exn,
           confidence = float_lit 2 10\<rparr>)
   \<and> (\<forall>h. PLAYSTORE_RE_search h \<longleftrightarrow>
        (\<exists>pre mid c post. h = pre @ mid @ c # post
           \<and> (lower mid = ''http://play.google.com/store/apps/details?id=''
              \<or> lower mid = ''https://play.google.com/store/apps/details?id='')
           \<and> (is_alpha c \<or> is_digit c \<or> c = CHR ''.'' \<or> c = CHR ''_'')))
   \<and> (\<forall>h. APPLE_APPS_RE_search h \<longleftrightarrow>
        (\<exists>pre mid post. h = pre @ mid @ post
           \<and> (lower mid = ''http://apps.apple.com/'' \<or> lower mid = ''https://apps.apple.com/'')))"
proof -
  have ok: "map Inr hrefs = map (urljoin resp_url) (filter (\<lambda>h. h \<noteq> []) (map strip (anchors page)))
     \<and> ((\<exists>h\<in>set hrefs. PLAYSTORE_RE_search h \<or> APPLE_APPS_RE_search h) \<longrightarrow>
         has_android_app (scrape_website_for_app_links urljoin get website_url)
           = (\<exists>h\<in>set hrefs. PLAYSTORE_RE_search h)
       \<and> evidence_android_url (scrape_website_for_app_links urljoin get website_url)
           = find PLAYSTORE_RE_search hrefs
       \<and> has_ios_app (scrape_website_for_app_links urljoin get website_url)
           = (\<exists>h\<in>set hrefs. APPLE_APPS_RE_search h)
       \<and> evidence_ios_url (scrape_website_for_app_links urljoin get website_url)
           = find APPLE_APPS_RE_search hrefs
       \<and> app_notes (scrape_website_for_app_links urljoin get website_url)
           = ''store_link_found_on_website''
       \<and> confidence (scrape_website_for_app_links urljoin get website_url) = float_lit 95 100)
     \<and> (app_notes (scrape_website_for_app_links urljoin get website_url)
           = ''app_text_hint_but_no_store_link'' \<longrightarrow>
         (\<forall>h\<in>set hrefs. \<not> PLAYSTORE_RE_search h \<and> \<not> APPLE_APPS_RE_search h)
       \<and> APP_TEXT_HINT_RE_search (page_text page)
       \<and> confidence (scrape_website_for_app_links urljoin get website_url) = float_lit 6 10)"
    if h: "collect_hrefs urljoin resp_url (anchors page) = Inr hrefs" for hrefs
  proof -
    note r = scrape_page [where get = get and url = url, OF assms h]
    have a: "map Inr hrefs = map (urljoin resp_url) (filter (\<lambda>h. h \<noteq> []) (map strip (anchors page)))"
      using h by (rule collect_hrefs_Inr)
    have b: "(\<exists>h\<in>set hrefs. PLAYSTORE_RE_search h \<or> APPLE_APPS_RE_search h) \<longrightarrow>
         has_android_app (scrape_website_for_app_links urljoin get website_url)
           = (\<exists>h\<in>set hrefs. PLAYSTORE_RE_search h)
       \<and> evidence_android_url (scrape_website_for_app_links urljoin get website_url)
           = find PLAYSTORE_RE_search hrefs
       \<and> has_ios_app (scrape_website_for_app_links urljoin get website_url)
           = (\<exists>h\<in>set hrefs. APPLE_APPS_RE_search h)
       \<and> evidence_ios_url (scrape_website_for_app_links urljoin get website_url)
           = find APPLE_APPS_RE_search hrefs
       \<and> app_notes (scrape_website_for_app_links urljoin get website_url)
           = ''store_link_found_on_website''
       \<and> confidence (scrape_website_for_app_links urljoin get website_url) = float_lit 95 100"
      by (simp add: r)
    have c: "app_notes (scrape_website_for_app_links urljoin get website_url)
           = ''app_text_hint_but_no_store_link'' \<longrightarrow>
         (\<forall>h\<in>set hrefs. \<not> PLAYSTORE_RE_search h \<and> \<not> APPLE_APPS_RE_search h)
       \<and> APP_TEXT_HINT_RE_search (page_text page)
       \<and> confidence (scrape_website_for_app_links urljoin get website_url) = float_lit 6 10"
      by (simp add: r split: if_splits)
    from a b c show ?thesis by blast
  qed
  have raises: "scrape_website_for_app_links urljoin get website_url =
          \<lparr>has_android_app = False, has_ios_app = False, evidence_android_url = None,
           evidence_ios_url = None, app_notes = ''parse_error:'' @ exn,
           confidence = float_lit 2 10\<rparr>"
    if "collect_hrefs urljoin resp_url (anchors page) = Inl exn" for exn
    using assms that by (rule scrape_href_raises [where get = get and url = url])
  have play: "PLAYSTORE_RE_search h \<longleftrightarrow>
        (\<exists>pre mid c post. h = pre @ mid @ c # post
           \<and> (lower mid = ''http://play.google.com/store/apps/details?id=''
              \<or> lower mid = ''https://play.google.com/store/apps/details?id='')
           \<and> (is_alpha c \<or> is_digit c \<or> c = CHR ''.'' \<or> c = CHR ''_''))" for h
    unfolding play_at id_char_def by simp
  from ok raises play apple_at show ?thesis by blast
qed

text \<open>
  Claim C2 as stated fails on a page whose hrefs are \<^verbatim>\<open>menu\<close>, \<^verbatim>\<open>http://[bad\<close> and an
  App-Store link: the status is 200 and the third href joins to an App-Store link, but
  joining the second raises \<^verbatim>\<open>ValueError\<close> before the links are searched, and the
  verdict is \<^verbatim>\<open>parse_error:ValueError\<close> with no flag.
\<close>

theorem scrape_href_raises_despite_store_link:
  "normalize_url ''cafex.com'' = Some ''https://cafex.com''
   \<and> ex_get_bracket_page ''https://cafex.com'' =
       GetResponse 200 ''https://cafex.com/'' (Inr ex_bracket_page)
   \<and> anchors ex_bracket_page = [''menu'', ''http://[bad'', ''https://apps.apple.com/a'']
   \<and> ex_urljoin_checked ''https://cafex.com/'' ''https://apps.apple.com/a'' =
       Inr ''https://apps.apple.com/a''
   \<and> APPLE_APPS_RE_search ''https://apps.apple.com/a''
   \<and> ex_urljoin_checked ''https://cafex.com/'' ''http://[bad'' = Inl ''ValueError''
   \<and> scrape_website_for_app_links ex_urljoin_checked ex_get_bracket_page ''cafex.com'' =
       \<lparr>has_android_app = False, has_ios_app = False, evidence_android_url = None,
        evidence_ios_url = None, app_notes = ''parse_error:ValueError'',
        confidence = float_lit 2 10\<rparr>"
  by code_simp

lemma ex_both_hrefs:
  "collect_hrefs ex_urljoin_checked ''https://cafex.com/'' (anchors ex_both_page) =
     Inr [''https://cafex.com/menu'', ''https://apps.apple.com/pk/app/cafe-x/id123'',
          ''https://Play.Google.com/Store/Apps/details?ID=com.cafex'',
          ''https://apps.apple.com/pk/app/other/id456'']"
  by code_simp

lemma ex_both_search:
  "\<not> PLAYSTORE_RE_search ''https://cafex.com/menu''
   \<and> \<not> PLAYSTORE_RE_search ''https://apps.apple.com/pk/app/cafe-x/id123''
   \<and> PLAYSTORE_RE_search ''https://Play.Google.com/Store/Apps/details?ID=com.cafex''
   \<and> \<not> APPLE_APPS_RE_search ''https://cafex.com/menu''
   \<and> APPLE_APPS_RE_search ''https://apps.apple.com/pk/app/cafe-x/id123''
   \<and> APP_TEXT_HINT_RE_search (page_text ex_both_page)"
  by code_simp

lemma ex_bracket_hrefs:
  "collect_hrefs ex_urljoin_checked ''https://cafex.com/'' (anchors ex_bracket_page) =
     Inl ''ValueError''"
  by code_simp

theorem scrape_store_link_priority_witness:
  "normalize_url ''cafex.com'' = Some ''https://cafex.com''
   \<and> (200 :: nat) < 400
   \<and> collect_hrefs ex_urljoin_checked ''https://cafex.com/'' (anchors ex_both_page) =
       Inr [''https://cafex.com/menu'', ''https://apps.apple.com/pk/app/cafe-x/id123'',
            ''https://Play.Google.com/Store/Apps/details?ID=com.cafex'',
            ''https://apps.apple.com/pk/app/other/id456'']
   \<and> APP_TEXT_HINT_RE_search (page_text ex_both_page)
   \<and> scrape_website_for_app_links ex_urljoin_checked ex_get_both_page ''cafex.com'' =
       \<lparr>has_android_app = True, has_ios_app = True,
        evidence_android_url = Some ''https://Play.Google.com/Store/Apps/details?ID=com.cafex'',
        evidence_ios_url = Some ''https://apps.apple.com/pk/app/cafe-x/id123'',
        app_notes = ''store_link_found_on_website'', confidence = float_lit 95 100\<rparr>
   \<and> collect_hrefs ex_urljoin_checked ''https://cafex.com/'' (anchors ex_bracket_page) =
       Inl ''ValueError''
   \<and> app_notes (scrape_website_for_app_links ex_urljoin_checked ex_get_bracket_page ''cafex.com'')
       = ''parse_error:ValueError''"
proof -
  let ?hrefs = "[''https://cafex.com/menu'', ''https://apps.apple.com/pk/app/cafe-x/id123'',
            ''https://Play.Google.com/Store/Apps/details?ID=com.cafex'',
            ''https://apps.apple.com/pk/app/other/id456'']"
  let ?res = "scrape_website_for_app_links ex_urljoin_checked ex_get_both_page ''cafex.com''"
  have n: "normalize_url ''cafex.com'' = Some ''https://cafex.com''" by code_simp
  have g: "ex_get_both_page ''https://cafex.com'' =
      GetResponse 200 ''https://cafex.com/'' (Inr ex_both_page)"
    by (simp add: ex_get_both_page_def)
  have g': "ex_get_bracket_page ''https://cafex.com'' =
      GetResponse 200 ''https://cafex.com/'' (Inr ex_bracket_page)"
    by (simp add: ex_get_bracket_page_def)
  have s: "(200 :: nat) < 400" by simp
  note t = scrape_store_link_priority
    [where get = ex_get_both_page and url = "''https://cafex.com''" and urljoin = ex_urljoin_checked,
     OF n g s]
  note t' = scrape_store_link_priority
    [where get = ex_get_bracket_page and url = "''https://cafex.com''"
       and urljoin = ex_urljoin_checked, OF n g' s]
  have m: "\<exists>h\<in>set ?hrefs. PLAYSTORE_RE_search h \<or> APPLE_APPS_RE_search h"
    using ex_both_search by simp
  have fp: "find PLAYSTORE_RE_search ?hrefs
      = Some ''https://Play.Google.com/Store/Apps/details?ID=com.cafex''"
    using ex_both_search by simp
  have fa: "find APPLE_APPS_RE_search ?hrefs = Some ''https://apps.apple.com/pk/app/cafe-x/id123''"
    using ex_both_search by simp
  have ep: "\<exists>h\<in>set ?hrefs. PLAYSTORE_RE_search h" using ex_both_search by simp
  have ea: "\<exists>h\<in>set ?hrefs. APPLE_APPS_RE_search h" using ex_both_search by simp
  note ok = t [THEN conjunct1, rule_format, OF ex_both_hrefs]
  note store = ok [THEN conjunct2, THEN conjunct1, rule_format, OF m]
  note s1 = store [THEN conjunct1]
  note s2 = store [THEN conjunct2, THEN conjunct1]
  note s3 = store [THEN conjunct2, THEN conjunct2, THEN conjunct1]
  note s4 = store [THEN conjunct2, THEN conjunct2, THEN conjunct2, THEN conjunct1]
  note s5 = store [THEN conjunct2, THEN conjunct2, THEN conjunct2, THEN conjunct2, THEN conjunct1]
  note s6 = store [THEN conjunct2, THEN conjunct2, THEN conjunct2, THEN conjunct2, THEN conjunct2]
  have v1: "has_android_app ?res" using s1 ep by (simp only: simp_thms)
  have v2: "evidence_android_url ?res
      = Some ''https://Play.Google.com/Store/Apps/details?ID=com.cafex''"
    using s2 by (simp only: fp)
  have v3: "has_ios_app ?res" using s3 ea by (simp only: simp_thms)
  have v4: "evidence_ios_url ?res = Some ''https://apps.apple.com/pk/app/cafe-x/id123''"
    using s4 by (simp only: fa)
  have r: "?res =
       \<lparr>has_android_app = True, has_ios_app = True,
        evidence_android_url = Some ''https://Play.Google.com/Store/Apps/details?ID=com.cafex'',
        evidence_ios_url = Some ''https://apps.apple.com/pk/app/cafe-x/id123'',
        app_notes = ''store_link_found_on_website'', confidence = float_lit 95 100\<rparr>"
    using v1 v2 v3 v4 s5 s6 by (cases ?res) (simp only: app_info.simps simp_thms)
  note raises = t' [THEN conjunct2, THEN conjunct1, rule_format, OF ex_bracket_hrefs]
  from raises have
    "scrape_website_for_app_links ex_urljoin_checked ex_get_bracket_page ''cafex.com'' =
       \<lparr>has_android_app = False, has_ios_app = False, evidence_android_url = None,
        evidence_ios_url = None, app_notes = ''parse_error:'' @ ''ValueError'',
        confidence = float_lit 2 10\<rparr>" .
  then have b: "app_notes (scrape_website_for_app_links ex_urljoin_checked ex_get_bracket_page
      ''cafex.com'') = ''parse_error:ValueError''"
    by simp
  from ex_both_search have h: "APP_TEXT_HINT_RE_search (page_text ex_both_page)" by blast
  from n s ex_both_hrefs h r ex_bracket_hrefs b show ?thesis by (intro conjI)
qed

text \<open>
  Claim C9. The classifier is a total function to verdicts. A URL that fails normalisation
  gives \<^verbatim>\<open>invalid_website_url\<close> with confidence 0.1; a \<^verbatim>\<open>RequestException\<close> of the fetch
  gives \<^verbatim>\<open>request_error:\<close> and the name of its class; a status of 400 or more gives
  \<^verbatim>\<open>http_\<close> and the status; any other exception of the fetch, of the parser or of the
  collection of hrefs gives \<^verbatim>\<open>parse_error:\<close> and the name of its class; each of the last
  three with confidence 0.2 and no app evidence.
\<close>

theorem scrape_failures_are_verdicts:
  "(normalize_url website_url = None \<longrightarrow>
      scrape_website_for_app_links urljoin get website_url =
        \<lparr>has_android_app = False, has_ios_app = False, evidence_android_url = None,
         evidence_ios_url = None, app_notes = ''invalid_website_url'', confidence = float_lit 1 10\<rparr>)
   \<and> (\<forall>url exn. normalize_url website_url = Some url \<and> get url = GetRequestException exn \<longrightarrow>
      scrape_website_for_app_links urljoin get website_url =
        \<lparr>has_android_app = False, has_ios_app = False, evidence_android_url = None,
         evidence_ios_url = None, app_notes = ''request_error:'' @ exn, confidence = float_lit 2 10\<rparr>)
   \<and> (\<forall>url status_code resp_url soup.
        normalize_url website_url = Some url \<and> get url = GetResponse status_code resp_url soup
        \<and> 400 \<le> status_code \<longrightarrow>
      scrape_website_for_app_links urljoin get website_url =
        \<lparr>has_android_app = False, has_ios_app = False, evidence_android_url = None,
         evidence_ios_url = None, app_notes = ''http_'' @ str_nat status_code,
         confidence = float_lit 2 10\<rparr>)
   \<and> (\<forall>url exn status_code resp_url page.
        normalize_url website_url = Some url
        \<and> (get url = GetException exn
           \<or> get url = GetResponse status_code resp_url (Inl exn) \<and> status_code < 400
           \<or> get url = GetResponse status_code resp_url (Inr page) \<and> status_code < 400
              \<and> collect_hrefs urljoin resp_url (anchors page) = Inl exn) \<longrightarrow>
      scrape_website_for_app_links urljoin get website_url =
        \<lparr>has_android_app = False, has_ios_app = False, evidence_android_url = None,
         evidence_ios_url = None, app_notes = ''parse_error:'' @ exn, confidence = float_lit 2 10\<rparr>)"
  by (auto simp: scrape_website_for_app_links_def)

theorem scrape_failures_are_verdicts_witness:
  "scrape_website_for_app_links ex_urljoin
       (\<lambda>u. GetResponse 404 u (Inr ex_plain_page)) ''cafex.com'' =
     \<lparr>has_android_app = False, has_ios_app = False, evidence_android_url = None,
      evidence_ios_url = None, app_notes = ''http_404'', confidence = float_lit 2 10\<rparr>
   \<and> scrape_website_for_app_links ex_urljoin
       (\<lambda>u. GetRequestException ''ConnectTimeout'') ''cafex.com'' =
     \<lparr>has_android_app = False, has_ios_app = False, evidence_android_url = None,
      evidence_ios_url = None, app_notes = ''request_error:ConnectTimeout'', confidence = float_lit 2 10\<rparr>
   \<and> scrape_website_for_app_links ex_urljoin
       (\<lambda>u. GetResponse 200 u (Inl ''RecursionError'')) ''cafex.com'' =
     \<lparr>has_android_app = False, has_ios_app = False, evidence_android_url = None,
      evidence_ios_url = None, app_notes = ''parse_error:RecursionError'', confidence = float_lit 2 10\<rparr>
   \<and> scrape_website_for_app_links ex_urljoin
       (\<lambda>u. GetResponse 200 u (Inr ex_plain_page)) ''http://'' =
     \<lparr>has_android_app = False, has_ios_app = False, evidence_android_url = None,
      evidence_ios_url = None, app_notes = ''invalid_website_url'', confidence = float_lit 1 10\<rparr>"
proof -
  have n: "normalize_url ''cafex.com'' = Some ''https://cafex.com''" by code_simp
  have i: "normalize_url ''http://'' = None" by code_simp
  have s: "str_nat 404 = ''404''" by code_simp
  have a: "scrape_website_for_app_links ex_urljoin
       (\<lambda>u. GetResponse 404 u (Inr ex_plain_page)) ''cafex.com'' =
     \<lparr>has_android_app = False, has_ios_app = False, evidence_android_url = None,
      evidence_ios_url = None, app_notes = ''http_'' @ str_nat 404, confidence = float_lit 2 10\<rparr>"
    using scrape_failures_are_verdicts
      [of "''cafex.com''" ex_urljoin "\<lambda>u. GetResponse 404 u (Inr ex_plain_page)"] n
    by simp
  have b: "scrape_website_for_app_links ex_urljoin
       (\<lambda>u. GetRequestException ''ConnectTimeout'') ''cafex.com'' =
     \<lparr>has_android_app = False, has_ios_app = False, evidence_android_url = None,
      evidence_ios_url = None, app_notes = ''request_error:'' @ ''ConnectTimeout'',
      confidence = float_lit 2 10\<rparr>"
    using scrape_failures_are_verdicts
      [of "''cafex.com''" ex_urljoin "\<lambda>u. GetRequestException ''ConnectTimeout''"] n
    by simp
  have c: "scrape_website_for_app_links ex_urljoin
       (\<lambda>u. GetResponse 200 u (Inl ''RecursionError'')) ''cafex.com'' =
     \<lparr>has_android_app = False, has_ios_app = False, evidence_android_url = None,
      evidence_ios_url = None, app_notes = ''parse_error:'' @ ''RecursionError'',
      confidence = float_lit 2 10\<rparr>"
    using scrape_failures_are_verdicts
      [of "''cafex.com''" ex_urljoin "\<lambda>u. GetResponse 200 u (Inl ''RecursionError'')"] n
    by simp
  have d: "scrape_website_for_app_links ex_urljoin
       (\<lambda>u. GetResponse 200 u (Inr ex_plain_page)) ''http://'' =
     \<lparr>has_android_app = False, has_ios_app = False, evidence_android_url = None,
      evidence_ios_url = None, app_notes = ''invalid_website_url'', confidence = float_lit 1 10\<rparr>"
    using scrape_failures_are_verdicts
      [of "''http://''" ex_urljoin "\<lambda>u. GetResponse 200 u (Inr ex_plain_page)"] i
    by simp
  from a b c d s show ?thesis by simp
qed

section \<open>The no-app subset: proofs\<close>

lemma no_app_rows_filter:
  "no_app_rows rows = Inr out \<Longrightarrow> out = filter no_app_row rows"
proof (induction rows arbitrary: out)
  case Nil
  then show ?case by simp
next
  case (Cons row rows)
  show ?case
  proof (cases "r_website row \<noteq> [] \<and> row_has_any_app row = 0")
    case False
    with Cons.prems have "no_app_rows rows = Inr out" by auto
    moreover from False have "\<not> no_app_row row" by (auto simp: no_app_row_def)
    ultimately show ?thesis using Cons.IH by simp
  next
    case True
    with Cons.prems obtain c out' where c: "py_float (row_confidence row) = Some c"
      and o: "no_app_rows rows = Inr out'"
      by (auto split: option.splits sum.splits)
    from Cons.IH [OF o] have out': "out' = filter no_app_row rows" .
    from True c have h: "no_app_row row \<longleftrightarrow>
        NO_APP_CONF_THRESHOLD \<le> c
        \<and> row_notes row \<in> set [''no_store_links_found_on_homepage'',
                                 ''app_text_hint_but_no_store_link'']"
      by (simp add: no_app_row_def)
    from Cons.prems True c o have "out = (if no_app_row row then row # out' else out')"
      unfolding h by (auto split: if_splits)
    with out' show ?thesis by simp
  qed
qed

lemma no_app_rows_raises:
  "isl (no_app_rows rows) \<longleftrightarrow>
     (\<exists>row\<in>set rows. r_website row \<noteq> [] \<and> row_has_any_app row = 0
        \<and> py_float (row_confidence row) = None)"
  by (induction rows) (auto split: option.splits sum.splits)

lemma threshold_literal: "py_float ''0.80'' = Some NO_APP_CONF_THRESHOLD"
  by code_simp

text \<open>
  Claim C1. When the comprehension returns, a row is in the no-app output if and only if it
  is an audit row with a non-empty website, \<^verbatim>\<open>has_any_app\<close> equal to 0, a confidence that
  reads as a float of at least 0.80, and one of the two notes codes; the output is the
  audit rows filtered in order, and none of its rows has an empty website or a confidence
  below 0.80. The comprehension raises only on a row with a website and no app whose
  confidence does not read as a float, which the two-decimal format never writes.
\<close>

theorem no_app_rows_exactly_the_filter:
  "(\<forall>out. no_app_rows rows = Inr out \<longrightarrow>
      out = filter no_app_row rows
    \<and> (\<forall>row. row \<in> set out \<longleftrightarrow>
          row \<in> set rows \<and> r_website row \<noteq> [] \<and> row_has_any_app row = 0
          \<and> (\<exists>c. py_float (row_confidence row) = Some c \<and> NO_APP_CONF_THRESHOLD \<le> c)
          \<and> (row_notes row = ''no_store_links_found_on_homepage''
             \<or> row_notes row = ''app_text_hint_but_no_store_link''))
    \<and> (\<forall>row\<in>set out. r_website row \<noteq> []
          \<and> \<not> (\<exists>c. py_float (row_confidence row) = Some c \<and> c < NO_APP_CONF_THRESHOLD)))
   \<and> (isl (no_app_rows rows) \<longleftrightarrow>
        (\<exists>row\<in>set rows. r_website row \<noteq> [] \<and> row_has_any_app row = 0
           \<and> py_float (row_confidence row) = None))
   \<and> py_float ''0.80'' = Some NO_APP_CONF_THRESHOLD"
proof -
  have a: "out = filter no_app_row rows
    \<and> (\<forall>row. row \<in> set out \<longleftrightarrow>
          row \<in> set rows \<and> r_website row \<noteq> [] \<and> row_has_any_app row = 0
          \<and> (\<exists>c. py_float (row_confidence row) = Some c \<and> NO_APP_CONF_THRESHOLD \<le> c)
          \<and> (row_notes row = ''no_store_links_found_on_homepage''
             \<or> row_notes row = ''app_text_hint_but_no_store_link''))
    \<and> (\<forall>row\<in>set out. r_website row \<noteq> []
          \<and> \<not> (\<exists>c. py_float (row_confidence row) = Some c \<and> c < NO_APP_CONF_THRESHOLD))"
    if "no_app_rows rows = Inr out" for out
  proof -
    from that have o: "out = filter no_app_row rows" by (rule no_app_rows_filter)
    then show ?thesis by (auto simp: no_app_row_def)
  qed
  from a no_app_rows_raises [of rows] threshold_literal show ?thesis by blast
qed

lemma scrape_notes_confidence:
  "confidence (scrape_website_for_app_links urljoin get w) = float_lit 85 100
     \<and> app_notes (scrape_website_for_app_links urljoin get w) = ''no_store_links_found_on_homepage''
   \<or> confidence (scrape_website_for_app_links urljoin get w) = float_lit 6 10
     \<and> app_notes (scrape_website_for_app_links urljoin get w) = ''app_text_hint_but_no_store_link''
   \<or> confidence (scrape_website_for_app_links urljoin get w)
        \<in> {float_lit 1 10, float_lit 2 10, float_lit 95 100}
     \<and> app_notes (scrape_website_for_app_links urljoin get w) \<noteq> ''no_store_links_found_on_homepage''
     \<and> app_notes (scrape_website_for_app_links urljoin get w) \<noteq> ''app_text_hint_but_no_store_link''"
  by (simp add: scrape_website_for_app_links_def Let_def
      split: option.splits fetch_outcome.splits sum.splits)

lemma fmt2_confidences:
  "fmt2 (float_lit 1 10) = ''0.10''" "fmt2 (float_lit 2 10) = ''0.20''" "fmt2 (float_lit 6 10) = ''0.60''"
  "fmt2 (float_lit 85 100) = ''0.85''" "fmt2 (float_lit 95 100) = ''0.95''"
  by code_simp+

lemma py_float_confidences:
  "py_float ''0.10'' = Some (float_lit 1 10)" "py_float ''0.20'' = Some (float_lit 2 10)"
  "py_float ''0.60'' = Some (float_lit 6 10)" "py_float ''0.85'' = Some (float_lit 85 100)"
  "py_float ''0.95'' = Some (float_lit 95 100)"
  by code_simp+

lemma threshold_confidences:
  "\<not> NO_APP_CONF_THRESHOLD \<le> float_lit 6 10" "NO_APP_CONF_THRESHOLD \<le> float_lit 85 100"
  by code_simp+

lemma audit_row_notes_confidence:
  "(row_notes (audit_row urljoin get r) = ''no_store_links_found_on_homepage''
      \<longrightarrow> row_confidence (audit_row urljoin get r) = ''0.85'')
   \<and> (row_notes (audit_row urljoin get r) = ''app_text_hint_but_no_store_link''
      \<longrightarrow> row_confidence (audit_row urljoin get r) = ''0.60'')
   \<and> row_confidence (audit_row urljoin get r) \<in> {''0.10'', ''0.20'', ''0.60'', ''0.85'', ''0.95''}"
proof (cases "r_website r \<noteq> []")
  case True
  then have n: "row_notes (audit_row urljoin get r)
      = app_notes (scrape_website_for_app_links urljoin get (r_website r))"
    and c: "row_confidence (audit_row urljoin get r)
      = fmt2 (confidence (scrape_website_for_app_links urljoin get (r_website r)))"
    by (simp_all add: audit_row_def Let_def)
  from scrape_notes_confidence [of urljoin get "r_website r"] show ?thesis
    unfolding n c by (elim disjE conjE) (auto simp: fmt2_confidences)
next
  case False
  then have n: "row_notes (audit_row urljoin get r) = ''no_website_in_osm''"
    and c: "row_confidence (audit_row urljoin get r) = fmt2 (float_lit 2 10)"
    by (simp_all add: audit_row_def Let_def no_website_appinfo_def)
  show ?thesis unfolding n c by (simp add: fmt2_confidences)
qed

lemma build_audit_rows_member:
  "row \<in> set (build_audit_rows urljoin web idx rs) \<Longrightarrow> \<exists>get r. row = audit_row urljoin get r"
  by (induction rs arbitrary: idx) auto

lemma build_audit_rows_map:
  "map restaurant.truncate (build_audit_rows urljoin web idx rs) = rs"
  by (induction rs arbitrary: idx) (auto simp: audit_row_def Let_def restaurant.truncate_def)

text \<open>
  Claim C10. For the audit rows built from any restaurants, any answers of the network and
  any \<^verbatim>\<open>urljoin\<close>, the no-app output is computed without an error and each of its rows has
  the notes \<^verbatim>\<open>no_store_links_found_on_homepage\<close> and the confidence \<^verbatim>\<open>0.85\<close>: a row
  with the notes \<^verbatim>\<open>app_text_hint_but_no_store_link\<close> has the confidence \<^verbatim>\<open>0.60\<close>, which
  reads as a float below the threshold.
\<close>

theorem no_app_rows_only_no_store_links:
  "(\<exists>out. no_app_rows (build_audit_rows urljoin web idx rs) = Inr out
      \<and> (\<forall>row\<in>set out. row_notes row = ''no_store_links_found_on_homepage''
            \<and> row_confidence row = ''0.85''))
   \<and> (\<forall>row\<in>set (build_audit_rows urljoin web idx rs).
        row_notes row = ''app_text_hint_but_no_store_link'' \<longrightarrow>
          row_confidence row = ''0.60'' \<and> py_float (row_confidence row) = Some (float_lit 6 10)
          \<and> \<not> NO_APP_CONF_THRESHOLD \<le> float_lit 6 10)"
proof -
  let ?rows = "build_audit_rows urljoin web idx rs"
  have shape: "(row_notes row = ''no_store_links_found_on_homepage'' \<longrightarrow> row_confidence row = ''0.85'')
     \<and> (row_notes row = ''app_text_hint_but_no_store_link'' \<longrightarrow> row_confidence row = ''0.60'')
     \<and> row_confidence row \<in> {''0.10'', ''0.20'', ''0.60'', ''0.85'', ''0.95''}"
    if "row \<in> set ?rows" for row
    using build_audit_rows_member [OF that] audit_row_notes_confidence by blast
  have parse: "py_float (row_confidence row) \<noteq> None" if "row \<in> set ?rows" for row
    using shape [OF that] by (auto simp: py_float_confidences)
  have "\<not> isl (no_app_rows ?rows)"
    using parse by (auto simp: no_app_rows_raises)
  then obtain out where out: "no_app_rows ?rows = Inr out"
    by (cases "no_app_rows ?rows") auto
  have f: "out = filter no_app_row ?rows" using out by (rule no_app_rows_filter)
  have "row_notes row = ''no_store_links_found_on_homepage'' \<and> row_confidence row = ''0.85''"
    if "row \<in> set out" for row
  proof -
    from that f have m: "row \<in> set ?rows" and n: "no_app_row row" by auto
    from n consider "row_notes row = ''no_store_links_found_on_homepage''"
      | "row_notes row = ''app_text_hint_but_no_store_link''"
      by (auto simp: no_app_row_def)
    then show ?thesis
    proof cases
      case 1
      with shape [OF m] show ?thesis by simp
    next
      case 2
      with shape [OF m] have "row_confidence row = ''0.60''" by simp
      with n threshold_confidences(1) show ?thesis
        by (simp add: no_app_row_def py_float_confidences)
    qed
  qed
  moreover have "row_confidence row = ''0.60'' \<and> py_float (row_confidence row) = Some (float_lit 6 10)
          \<and> \<not> NO_APP_CONF_THRESHOLD \<le> float_lit 6 10"
    if "row \<in> set ?rows" "row_notes row = ''app_text_hint_but_no_store_link''" for row
    using shape [OF that(1)] that(2) threshold_confidences(1)
    by (simp add: py_float_confidences)
  ultimately show ?thesis using out by blast
qed

lemma ex_audit_rows:
  "build_audit_rows ex_urljoin ex_web 1
     [ex_restaurant ''Plain'' ''https://plain.pk'', ex_restaurant ''Hint'' ''https://hint.pk'',
      ex_restaurant ''Store'' ''https://store.pk'', ex_restaurant ''Offline'' []] =
     [ex_row ''Plain'' ''https://plain.pk'' 0 [] ''no_store_links_found_on_homepage'' ''0.85'',
      ex_row ''Hint'' ''https://hint.pk'' 0 [] ''app_text_hint_but_no_store_link'' ''0.60'',
      ex_row ''Store'' ''https://store.pk'' 1
        ''https://play.google.com/store/apps/details?id=com.cafex''
        ''store_link_found_on_website'' ''0.95'',
      ex_row ''Offline'' [] 0 [] ''no_website_in_osm'' ''0.20'']"
  by code_simp

lemma ex_no_app_rows:
  "no_app_rows
     [ex_row ''Plain'' ''https://plain.pk'' 0 [] ''no_store_links_found_on_homepage'' ''0.85'',
      ex_row ''Hint'' ''https://hint.pk'' 0 [] ''app_text_hint_but_no_store_link'' ''0.60'',
      ex_row ''Store'' ''https://store.pk'' 1
        ''https://play.google.com/store/apps/details?id=com.cafex''
        ''store_link_found_on_website'' ''0.95'',
      ex_row ''Offline'' [] 0 [] ''no_website_in_osm'' ''0.20''] =
     Inr [ex_row ''Plain'' ''https://plain.pk'' 0 [] ''no_store_links_found_on_homepage'' ''0.85'']"
  by code_simp

theorem no_app_rows_exactly_the_filter_witness:
  "no_app_rows
     [ex_row ''Plain'' ''https://plain.pk'' 0 [] ''no_store_links_found_on_homepage'' ''0.85'',
      ex_row ''Hint'' ''https://hint.pk'' 0 [] ''app_text_hint_but_no_store_link'' ''0.60'',
      ex_row ''Store'' ''https://store.pk'' 1
        ''https://play.google.com/store/apps/details?id=com.cafex''
        ''store_link_found_on_website'' ''0.95'',
      ex_row ''Offline'' [] 0 [] ''no_website_in_osm'' ''0.20''] =
     Inr [ex_row ''Plain'' ''https://plain.pk'' 0 [] ''no_store_links_found_on_homepage'' ''0.85'']
   \<and> no_app_row (ex_row ''Plain'' ''https://plain.pk'' 0 [] ''no_store_links_found_on_homepage'' ''0.85'')
   \<and> py_float ''0.85'' = Some (float_lit 85 100)
   \<and> NO_APP_CONF_THRESHOLD \<le> float_lit 85 100"
proof -
  let ?rows = "[ex_row ''Plain'' ''https://plain.pk'' 0 [] ''no_store_links_found_on_homepage'' ''0.85'',
      ex_row ''Hint'' ''https://hint.pk'' 0 [] ''app_text_hint_but_no_store_link'' ''0.60'',
      ex_row ''Store'' ''https://store.pk'' 1
        ''https://play.google.com/store/apps/details?id=com.cafex''
        ''store_link_found_on_website'' ''0.95'',
      ex_row ''Offline'' [] 0 [] ''no_website_in_osm'' ''0.20'']"
  let ?out = "[ex_row ''Plain'' ''https://plain.pk'' 0 [] ''no_store_links_found_on_homepage'' ''0.85'']"
  from no_app_rows_exactly_the_filter [of ?rows] ex_no_app_rows
  have "?out = filter no_app_row ?rows" by blast
  then have "set ?out = set (filter no_app_row ?rows)" by (rule arg_cong)
  then have "no_app_row (ex_row ''Plain'' ''https://plain.pk'' 0 [] ''no_store_links_found_on_homepage'' ''0.85'')"
    by (simp only: set_filter list.set) blast
  with ex_no_app_rows py_float_confidences(4) threshold_confidences(2) show ?thesis by blast
qed

theorem no_app_rows_only_no_store_links_witness:
  "no_app_rows (build_audit_rows ex_urljoin ex_web 1
     [ex_restaurant ''Plain'' ''https://plain.pk'', ex_restaurant ''Hint'' ''https://hint.pk'',
      ex_restaurant ''Store'' ''https://store.pk'', ex_restaurant ''Offline'' []]) =
     Inr [ex_row ''Plain'' ''https://plain.pk'' 0 [] ''no_store_links_found_on_homepage'' ''0.85'']
   \<and> \<not> NO_APP_CONF_THRESHOLD \<le> float_lit 6 10"
proof -
  let ?rs = "[ex_restaurant ''Plain'' ''https://plain.pk'', ex_restaurant ''Hint'' ''https://hint.pk'',
      ex_restaurant ''Store'' ''https://store.pk'', ex_restaurant ''Offline'' []]"
  have m: "ex_row ''Hint'' ''https://hint.pk'' 0 [] ''app_text_hint_but_no_store_link'' ''0.60''
      \<in> set (build_audit_rows ex_urljoin ex_web 1 ?rs)"
    unfolding ex_audit_rows by simp
  have n: "row_notes (ex_row ''Hint'' ''https://hint.pk'' 0 [] ''app_text_hint_but_no_store_link'' ''0.60'')
      = ''app_text_hint_but_no_store_link''"
    by (simp add: ex_row_def)
  from no_app_rows_only_no_store_links [of ex_urljoin ex_web 1 ?rs] m n
  have "\<not> NO_APP_CONF_THRESHOLD \<le> float_lit 6 10" by blast
  moreover have "no_app_rows (build_audit_rows ex_urljoin ex_web 1 ?rs) =
     Inr [ex_row ''Plain'' ''https://plain.pk'' 0 [] ''no_store_links_found_on_homepage'' ''0.85'']"
    unfolding ex_audit_rows by (rule ex_no_app_rows)
  ultimately show ?thesis by blast
qed

section \<open>The tiler: proofs\<close>

lemma nth_concat_rows:
  "i < length xs \<Longrightarrow> j < m \<Longrightarrow> \<forall>x\<in>set xs. length (g x) = m \<Longrightarrow>
     concat (map g xs) ! (i * m + j) = g (xs ! i) ! j"
proof (induction xs arbitrary: i)
  case Nil
  then show ?case by simp
next
  case (Cons x xs)
  show ?case
  proof (cases i)
    case 0
    with Cons.prems show ?thesis by (simp add: nth_append)
  next
    case (Suc i')
    with Cons.prems have "concat (map g xs) ! (i' * m + j) = g (xs ! i') ! j"
      by (intro Cons.IH) auto
    with Cons.prems Suc show ?thesis by (simp add: nth_append)
  qed
qed

lemma length_concat_rows:
  "\<forall>x\<in>set xs. length (g x) = m \<Longrightarrow> length (concat (map g xs)) = length xs * m"
  by (induction xs) auto

lemma tile_bbox_grid_lines:
  "0 < rows \<Longrightarrow> 0 < cols \<Longrightarrow>
   tile_bbox (s, w, n, e) rows cols =
     Inr (concat (map (\<lambda>r. map (\<lambda>c.
            (grid_line s n rows r, grid_line w e cols c,
             grid_line s n rows (r + 1), grid_line w e cols (c + 1)))
          [0 .. cols - 1]) [0 .. rows - 1]))"
  by (simp add: tile_bbox_def grid_line_def Let_def)

lemma rd_0: "rd 0 = 0"
  by (simp add: rd_def)

lemma grid_line_0: "rd lo = lo \<Longrightarrow> grid_line lo hi k 0 = lo"
  by (simp add: grid_line_def float_of_int_def fmul_def fadd_def rd_0)

text \<open>
  Claim C7 as stated fails in double arithmetic: for the box from 0.2 to 0.9 in two rows
  the last tile ends at 0.8999999999999999, one unit in the last place below the north
  edge 0.9, so the union of the tiles is not the box.
\<close>

lemma ex_lat_lines:
  "grid_line (float_lit 2 10) (float_lit 9 10) 2 0 = 3602879701896397 / 18014398509481984"
  "grid_line (float_lit 2 10) (float_lit 9 10) 2 1 = 2476979795053773 / 4503599627370496"
  "grid_line (float_lit 2 10) (float_lit 9 10) 2 2 = 2026619832316723 / 2251799813685248"
  by code_simp+

lemma ex_lon_lines:
  "grid_line 0 1 1 0 = 0" "grid_line 0 1 1 1 = 1"
  by code_simp+

lemma ex_north: "float_lit 9 10 = 8106479329266893 / 9007199254740992"
  by code_simp

theorem tile_bbox_misses_north:
  "tile_bbox (float_lit 2 10, 0, float_lit 9 10, 1) 2 1 =
     Inr [(3602879701896397 / 18014398509481984, 0, 2476979795053773 / 4503599627370496, 1),
          (2476979795053773 / 4503599627370496, 0, 2026619832316723 / 2251799813685248, 1)]
   \<and> float_lit 9 10 = 8106479329266893 / 9007199254740992
   \<and> (2026619832316723 / 2251799813685248 :: rat) < 8106479329266893 / 9007199254740992"
proof -
  have u: "[0 .. (1::int)] = [0, 1]" "[0 .. (0::int)] = [0]"
    by (simp_all add: upto_rec1)
  have "tile_bbox (float_lit 2 10, 0, float_lit 9 10, 1) 2 1 =
     Inr [(3602879701896397 / 18014398509481984, 0, 2476979795053773 / 4503599627370496, 1),
          (2476979795053773 / 4503599627370496, 0, 2026619832316723 / 2251799813685248, 1)]"
    by (simp add: tile_bbox_grid_lines u ex_lat_lines ex_lon_lines del: upto.simps)
  with ex_north show ?thesis by simp
qed

section \<open>Rounding to the nearest double is monotone\<close>


lemma pow2_powi: "pow2 e = 2 powi e"
  by (simp add: pow2_def power_int_def field_simps)

lemma pow2_pos: "0 < pow2 e"
  by (simp add: pow2_powi zero_less_power_int)

lemma pow2_add: "pow2 (a + b) = pow2 a * pow2 b"
  by (simp add: pow2_powi power_int_add)

lemma pow2_mono: "a \<le> b \<Longrightarrow> pow2 a \<le> pow2 b"
  by (simp add: pow2_powi power_int_increasing)

lemma pow2_less_imp: "pow2 a < pow2 b \<Longrightarrow> a < b"
  using pow2_mono [of b a] by (cases "a < b") auto

lemma pow2_nat: "0 \<le> e \<Longrightarrow> pow2 e = of_int (2 ^ nat e)"
  by (simp add: pow2_def)

lemma bit_length_bounds:
  "0 < i \<Longrightarrow> 1 \<le> bit_length i \<and> 2 ^ nat (bit_length i - 1) \<le> i \<and> i < 2 ^ nat (bit_length i)"
proof (induction i rule: bit_length.induct)
  case (1 i)
  show ?case
  proof (cases "i div 2 = 0")
    case True
    with 1 have i: "i = 1" by presburger
    have "bit_length 1 = 1"
      by (simp add: bit_length.simps [of 1] bit_length.simps [of 0])
    with i show ?thesis by simp
  next
    case False
    with 1 have pos: "0 < i div 2" by presburger
    from "1.IH" pos "1.prems" have ih: "1 \<le> bit_length (i div 2)"
      "2 ^ nat (bit_length (i div 2) - 1) \<le> i div 2"
      "i div 2 < 2 ^ nat (bit_length (i div 2))"
      by auto
    have b: "bit_length i = 1 + bit_length (i div 2)"
      using "1.prems" by (simp add: bit_length.simps [of i])
    have n1: "nat (bit_length i - 1) = Suc (nat (bit_length (i div 2) - 1))"
      using ih(1) b by simp
    have n2: "nat (bit_length i) = Suc (nat (bit_length (i div 2)))"
      using ih(1) b by simp
    have lo: "2 ^ nat (bit_length i - 1) \<le> i"
      using ih(2) unfolding n1 by simp
    have hi: "i < 2 ^ nat (bit_length i)"
      using ih(3) unfolding n2 by simp
    from b ih(1) lo hi show ?thesis by simp
  qed
qed

lemma ilog2_bounds:
  assumes "0 < x"
  shows "pow2 (ilog2 x) \<le> x \<and> x < pow2 (ilog2 x + 1)"
proof (cases "1 \<le> x")
  case True
  let ?f = "\<lfloor>x\<rfloor>"
  let ?b = "bit_length ?f"
  from True have f: "0 < ?f" by simp
  note bb = bit_length_bounds [OF f]
  have e: "ilog2 x = ?b - 1" using True by (simp add: ilog2_def)
  have "pow2 (?b - 1) = of_int (2 ^ nat (?b - 1))" using bb by (intro pow2_nat) simp
  also have "\<dots> \<le> of_int ?f" using bb by (simp only: of_int_le_iff)
  also have "\<dots> \<le> x" by simp
  finally have lo: "pow2 (?b - 1) \<le> x" .
  have "?f + 1 \<le> 2 ^ nat ?b" using bb by simp
  then have "(of_int (?f + 1) :: rat) \<le> of_int (2 ^ nat ?b)" by (simp only: of_int_le_iff)
  moreover have "x < of_int (?f + 1)" by simp linarith
  moreover have "pow2 ?b = of_int (2 ^ nat ?b)" using bb by (intro pow2_nat) simp
  ultimately have hi: "x < pow2 ?b" by simp
  from lo hi show ?thesis by (simp add: e)
next
  case False
  let ?y = "1 / x"
  let ?f = "\<lfloor>?y\<rfloor>"
  let ?k = "bit_length ?f"
  from False assms have y1: "1 < ?y" by simp
  then have f: "0 < ?f" by simp
  note bb = bit_length_bounds [OF f]
  have ypos: "0 < ?y" using assms by simp
  have "pow2 (?k - 1) = of_int (2 ^ nat (?k - 1))" using bb by (intro pow2_nat) simp
  also have "\<dots> \<le> of_int ?f" using bb by (simp only: of_int_le_iff)
  also have "\<dots> \<le> ?y" by simp
  finally have a: "pow2 (?k - 1) \<le> ?y" .
  have "?f + 1 \<le> 2 ^ nat ?k" using bb by simp
  then have "(of_int (?f + 1) :: rat) \<le> of_int (2 ^ nat ?k)" by (simp only: of_int_le_iff)
  moreover have "?y < of_int (?f + 1)" by simp linarith
  moreover have "pow2 ?k = of_int (2 ^ nat ?k)" using bb by (intro pow2_nat) simp
  ultimately have b: "?y < pow2 ?k" by simp
  have inv: "pow2 (- e) = 1 / pow2 e" for e
    using pow2_add [of "- e" e] pow2_pos [of e] by (simp add: pow2_def field_simps)
  have one: "pow2 0 = 1" by (simp add: pow2_def)
  have up: "x \<le> pow2 (1 - ?k)"
  proof -
    have "x * pow2 (?k - 1) \<le> x * ?y" using a assms by (intro mult_left_mono) simp_all
    also have "\<dots> = 1" using assms by simp
    finally have "x * pow2 (?k - 1) \<le> 1" .
    then have "x \<le> 1 / pow2 (?k - 1)" using pow2_pos [of "?k - 1"] by (simp add: field_simps)
    with inv [of "?k - 1"] show ?thesis by simp
  qed
  have down: "pow2 (- ?k) < x"
  proof -
    have "x * ?y < x * pow2 ?k" using b assms by (intro mult_strict_left_mono) simp_all
    then have "1 < x * pow2 ?k" using assms by simp
    then have "1 / pow2 ?k < x" using pow2_pos [of ?k] by (simp add: field_simps)
    with inv [of ?k] show ?thesis by simp
  qed
  show ?thesis
  proof (cases "pow2 (1 - ?k) \<le> x")
    case True
    with False have e: "ilog2 x = 1 - ?k" by (simp add: ilog2_def Let_def)
    from True up have eq: "x = pow2 (1 - ?k)" by simp
    have "pow2 (1 - ?k) < pow2 (1 - ?k + 1)"
      using pow2_add [of "1 - ?k" 1] pow2_pos [of "1 - ?k"] by (simp add: pow2_def)
    with eq show ?thesis by (simp add: e)
  next
    case nle: False
    with False have e: "ilog2 x = - ?k" by (simp add: ilog2_def Let_def)
    from nle have "x < pow2 (1 - ?k)" by simp
    moreover have "- ?k + 1 = 1 - ?k" by simp
    ultimately show ?thesis using down by (simp add: e)
  qed
qed

lemma ilog2_mono:
  assumes "0 < x" and "x \<le> y"
  shows "ilog2 x \<le> ilog2 y"
proof -
  from assms have y: "0 < y" by simp
  from ilog2_bounds [OF assms(1)] ilog2_bounds [OF y] assms(2)
  have "pow2 (ilog2 x) < pow2 (ilog2 y + 1)" by linarith
  then have "ilog2 x < ilog2 y + 1" by (rule pow2_less_imp)
  then show ?thesis by simp
qed

lemma round_half_even_cases:
  "round_half_even x = \<lfloor>x\<rfloor> \<and> x - of_int \<lfloor>x\<rfloor> \<le> 1 / 2
   \<or> round_half_even x = \<lfloor>x\<rfloor> + 1 \<and> 1 / 2 \<le> x - of_int \<lfloor>x\<rfloor>"
  by (auto simp: round_half_even_def Let_def)

lemma round_half_even_mono:
  assumes "x \<le> y"
  shows "round_half_even x \<le> round_half_even y"
proof (cases "\<lfloor>x\<rfloor> = \<lfloor>y\<rfloor>")
  case True
  have d: "x - of_int \<lfloor>x\<rfloor> \<le> y - of_int \<lfloor>y\<rfloor>" using assms True by simp
  show ?thesis
    using d True by (auto simp: round_half_even_def Let_def)
next
  case False
  with assms floor_mono [OF assms] have "\<lfloor>x\<rfloor> + 1 \<le> \<lfloor>y\<rfloor>" by simp
  moreover have "round_half_even x \<le> \<lfloor>x\<rfloor> + 1"
    using round_half_even_cases [of x] by auto
  moreover have "\<lfloor>y\<rfloor> \<le> round_half_even y"
    using round_half_even_cases [of y] by auto
  ultimately show ?thesis by linarith
qed

lemma round_half_even_of_int: "round_half_even (of_int n) = n"
  by (simp add: round_half_even_def)

lemma rd_expo: "x \<noteq> 0 \<Longrightarrow> rd x = of_int (round_half_even (x / pow2 (expo x))) * pow2 (expo x)"
  by (simp add: rd_def expo_def Let_def)

lemma rd_nonneg: "0 \<le> x \<Longrightarrow> 0 \<le> rd x"
proof (cases "x = 0")
  case True
  then show ?thesis by (simp add: rd_0)
next
  case False
  assume "0 \<le> x"
  then have "0 \<le> x / pow2 (expo x)" using pow2_pos [of "expo x"] by simp
  from round_half_even_mono [OF this] have "0 \<le> round_half_even (x / pow2 (expo x))"
    using round_half_even_of_int [of 0] by simp
  then show ?thesis using False pow2_pos [of "expo x"] by (simp add: rd_expo)
qed

lemma rd_nonpos: "x \<le> 0 \<Longrightarrow> rd x \<le> 0"
proof (cases "x = 0")
  case True
  then show ?thesis by (simp add: rd_0)
next
  case False
  assume "x \<le> 0"
  then have "x / pow2 (expo x) \<le> 0" using pow2_pos [of "expo x"] by (simp add: divide_le_0_iff)
  from round_half_even_mono [OF this] have "round_half_even (x / pow2 (expo x)) \<le> 0"
    using round_half_even_of_int [of 0] by simp
  then show ?thesis using False pow2_pos [of "expo x"]
    by (simp add: rd_expo mult_le_0_iff)
qed

text \<open>A power of two above the exponent is an integer multiple of the spacing.\<close>

lemma pow2_quotient: "e \<le> p \<Longrightarrow> pow2 p / pow2 e = of_int (2 ^ nat (p - e))"
proof -
  assume "e \<le> p"
  then have "pow2 (p - e) = of_int (2 ^ nat (p - e))" by (intro pow2_nat) simp
  moreover have "pow2 p = pow2 (p - e) * pow2 e" using pow2_add [of "p - e" e] by simp
  ultimately show ?thesis using pow2_pos [of e] by simp
qed

lemma rd_le_pow2:
  assumes "0 < x" and "x \<le> pow2 p" and "expo x \<le> p"
  shows "rd x \<le> pow2 p"
proof -
  let ?e = "expo x"
  have "x / pow2 ?e \<le> pow2 p / pow2 ?e"
    using assms(2) pow2_pos [of ?e] by (simp add: divide_right_mono)
  also have "\<dots> = of_int (2 ^ nat (p - ?e))" using assms(3) by (rule pow2_quotient)
  finally have "round_half_even (x / pow2 ?e) \<le> 2 ^ nat (p - ?e)"
    using round_half_even_mono round_half_even_of_int by metis
  then have "(of_int (round_half_even (x / pow2 ?e)) :: rat) \<le> of_int (2 ^ nat (p - ?e))"
    by (simp only: of_int_le_iff)
  then have "of_int (round_half_even (x / pow2 ?e)) * pow2 ?e \<le> of_int (2 ^ nat (p - ?e)) * pow2 ?e"
    using pow2_pos [of ?e] by (intro mult_right_mono) simp_all
  also have "\<dots> = pow2 p"
    using pow2_quotient [OF assms(3)] pow2_pos [of ?e] by (simp add: field_simps)
  finally show ?thesis using assms(1) by (simp add: rd_expo)
qed

lemma rd_ge_pow2:
  assumes "pow2 p \<le> x" and "expo x \<le> p"
  shows "pow2 p \<le> rd x"
proof -
  let ?e = "expo x"
  have x: "0 < x" using assms(1) pow2_pos [of p] by linarith
  have "pow2 p / pow2 ?e \<le> x / pow2 ?e"
    using assms(1) pow2_pos [of ?e] by (simp add: divide_right_mono)
  moreover have "pow2 p / pow2 ?e = of_int (2 ^ nat (p - ?e))" using assms(2) by (rule pow2_quotient)
  ultimately have "2 ^ nat (p - ?e) \<le> round_half_even (x / pow2 ?e)"
    using round_half_even_mono round_half_even_of_int by metis
  then have "(of_int (2 ^ nat (p - ?e)) :: rat) \<le> of_int (round_half_even (x / pow2 ?e))"
    by (simp only: of_int_le_iff)
  then have "of_int (2 ^ nat (p - ?e)) * pow2 ?e \<le> of_int (round_half_even (x / pow2 ?e)) * pow2 ?e"
    using pow2_pos [of ?e] by (intro mult_right_mono) simp_all
  moreover have "of_int (2 ^ nat (p - ?e)) * pow2 ?e = pow2 p"
    using pow2_quotient [OF assms(2)] pow2_pos [of ?e] by (simp add: field_simps)
  ultimately show ?thesis using x by (simp add: rd_expo)
qed

lemma expo_mono: "0 < x \<Longrightarrow> x \<le> y \<Longrightarrow> expo x \<le> expo y"
  using ilog2_mono [of x y] by (simp add: expo_def)

lemma rd_mono_pos:
  assumes "0 < x" and "x \<le> y"
  shows "rd x \<le> rd y"
proof (cases "expo x = expo y")
  case True
  from assms have y: "0 < y" by simp
  have "x / pow2 (expo y) \<le> y / pow2 (expo y)"
    using assms(2) pow2_pos [of "expo y"] by (simp add: divide_right_mono)
  from round_half_even_mono [OF this]
  have "(of_int (round_half_even (x / pow2 (expo y))) :: rat)
      \<le> of_int (round_half_even (y / pow2 (expo y)))"
    by (simp only: of_int_le_iff)
  then have "of_int (round_half_even (x / pow2 (expo y))) * pow2 (expo y)
      \<le> of_int (round_half_even (y / pow2 (expo y))) * pow2 (expo y)"
    using pow2_pos [of "expo y"] by (intro mult_right_mono) simp_all
  with assms(1) y True show ?thesis by (simp add: rd_expo)
next
  case False
  from assms have y: "0 < y" by simp
  from False expo_mono [OF assms] have lt: "expo x < expo y" by simp
  have "- 1074 \<le> expo x" by (simp add: expo_def)
  with lt have "- 1074 < expo y" by simp
  then have ey: "expo y = ilog2 y - 52" using y by (simp add: expo_def max_def split: if_splits)
  let ?p = "ilog2 y"
  have ex: "ilog2 x - 52 \<le> expo x" using assms(1) by (simp add: expo_def)
  with lt ey have il: "ilog2 x + 1 \<le> ?p" by simp
  from ilog2_bounds [OF assms(1)] have "x < pow2 (ilog2 x + 1)" by simp
  also have "\<dots> \<le> pow2 ?p" using il by (rule pow2_mono)
  finally have xp: "x \<le> pow2 ?p" by simp
  have "expo x \<le> ?p" using lt ey by simp
  from rd_le_pow2 [OF assms(1) xp this] have a: "rd x \<le> pow2 ?p" .
  from ilog2_bounds [OF y] have yp: "pow2 ?p \<le> y" by simp
  have "expo y \<le> ?p" using ey by simp
  from rd_ge_pow2 [OF yp this] have b: "pow2 ?p \<le> rd y" .
  from a b show ?thesis by simp
qed

lemma round_half_even_minus: "round_half_even (- x) = - round_half_even x"
proof (cases "x = of_int \<lfloor>x\<rfloor>")
  case True
  then obtain n where "x = of_int n" ..
  then show ?thesis
    using round_half_even_of_int [of n] round_half_even_of_int [of "- n"] by simp
next
  case False
  then have fl: "\<lfloor>- x\<rfloor> = - \<lfloor>x\<rfloor> - 1"
    by (simp add: floor_minus ceiling_altdef)
  have d: "0 < x - of_int \<lfloor>x\<rfloor>" using False by (simp add: less_le)
  have ev: "even (- \<lfloor>x\<rfloor> - 1) \<longleftrightarrow> odd \<lfloor>x\<rfloor>" by simp
  show ?thesis
    using d unfolding round_half_even_def Let_def fl ev
    by (auto simp: field_simps)
qed

lemma rd_minus: "rd (- x) = - rd x"
proof (cases "x = 0")
  case True
  then show ?thesis by (simp add: rd_0)
next
  case False
  have e: "expo (- x) = expo x" by (simp add: expo_def)
  from False show ?thesis
    by (simp add: rd_expo e round_half_even_minus)
qed

lemma rd_mono:
  assumes "x \<le> y"
  shows "rd x \<le> rd y"
proof -
  consider "0 < x" | "x \<le> 0" "0 \<le> y" | "y < 0" by linarith
  then show ?thesis
  proof cases
    case 1
    then show ?thesis using assms by (rule rd_mono_pos)
  next
    case 2
    with rd_nonpos [of x] rd_nonneg [of y] show ?thesis by simp
  next
    case 3
    then have "0 < - y" "- y \<le> - x" using assms by simp_all
    from rd_mono_pos [OF this] show ?thesis by (simp add: rd_minus)
  qed
qed

lemma rd_1: "rd 1 = 1"
  by code_simp

lemma float_of_int_mono: "i \<le> j \<Longrightarrow> float_of_int i \<le> float_of_int j"
  by (simp add: float_of_int_def rd_mono)

lemma grid_line_mono:
  assumes "lo \<le> hi" and "0 < k"
  shows "grid_line lo hi k i \<le> grid_line lo hi k (i + 1)"
proof -
  let ?step = "fdiv (fsub hi lo) (float_of_int k)"
  have d: "0 \<le> fsub hi lo" using assms(1) by (simp add: fsub_def rd_nonneg)
  have "float_of_int 1 \<le> float_of_int k" using assms(2) by (intro float_of_int_mono) simp
  then have k: "0 < float_of_int k" by (simp add: float_of_int_def rd_1)
  have s: "0 \<le> ?step" using d k by (simp add: fdiv_def rd_nonneg)
  have "float_of_int i \<le> float_of_int (i + 1)" by (intro float_of_int_mono) simp
  then have "float_of_int i * ?step \<le> float_of_int (i + 1) * ?step"
    using s by (rule mult_right_mono)
  then have "fmul (float_of_int i) ?step \<le> fmul (float_of_int (i + 1)) ?step"
    unfolding fmul_def by (rule rd_mono)
  then have "lo + fmul (float_of_int i) ?step \<le> lo + fmul (float_of_int (i + 1)) ?step"
    by simp
  then show ?thesis unfolding grid_line_def fadd_def by (rule rd_mono)
qed

text \<open>
  Claim C7, amended. For positive counts the tiler returns \<open>rows * cols\<close> tiles in row-major
  order; tile \<open>(r, c)\<close> lies between the grid lines \<open>r\<close> and \<open>r + 1\<close> of the latitudes and
  \<open>c\<close> and \<open>c + 1\<close> of the longitudes, so two adjacent tiles have their common edge at the
  same coordinate, and grid line 0 is the south (west) edge of the box. The grid lines do
  not decrease, so the tiles of a row or column leave no gap between grid line 0 and the
  last grid line, and the ranges of two adjacent tiles meet in their common edge only. The
  last grid line is the double \<open>s + rows * ((n - s) / rows)\<close> as rounded by each operation;
  the amended claim does not say that it equals the north (east) edge.
\<close>

theorem tile_bbox_grid:
  assumes "0 < rows" and "0 < cols"
  shows "\<exists>tiles. tile_bbox (s, w, n, e) rows cols = Inr tiles
     \<and> length tiles = nat (rows * cols)
     \<and> (\<forall>r c. 0 \<le> r \<and> r < rows \<and> 0 \<le> c \<and> c < cols \<longrightarrow>
           tiles ! nat (r * cols + c) =
             (grid_line s n rows r, grid_line w e cols c,
              grid_line s n rows (r + 1), grid_line w e cols (c + 1)))
     \<and> (rd s = s \<longrightarrow> grid_line s n rows 0 = s)
     \<and> (rd w = w \<longrightarrow> grid_line w e cols 0 = w)
     \<and> (s \<le> n \<longrightarrow> (\<forall>i. grid_line s n rows i \<le> grid_line s n rows (i + 1)))
     \<and> (w \<le> e \<longrightarrow> (\<forall>i. grid_line w e cols i \<le> grid_line w e cols (i + 1)))"
proof -
  let ?g = "\<lambda>r. map (\<lambda>c.
            (grid_line s n rows r, grid_line w e cols c,
             grid_line s n rows (r + 1), grid_line w e cols (c + 1)))
          [0 .. cols - 1]"
  let ?tiles = "concat (map ?g [0 .. rows - 1])"
  have t: "tile_bbox (s, w, n, e) rows cols = Inr ?tiles"
    using assms by (rule tile_bbox_grid_lines)
  have len_g: "\<forall>x\<in>set [0 .. rows - 1]. length (?g x) = nat cols"
    using assms by simp
  have len_rows: "length [0 .. rows - 1] = nat rows" using assms by simp
  have l: "length ?tiles = nat (rows * cols)"
    using length_concat_rows [of "[0 .. rows - 1]" ?g "nat cols", OF len_g] assms
    by (simp add: nat_mult_distrib)
  have nth: "?tiles ! nat (r * cols + c) =
             (grid_line s n rows r, grid_line w e cols c,
              grid_line s n rows (r + 1), grid_line w e cols (c + 1))"
    if "0 \<le> r" "r < rows" "0 \<le> c" "c < cols" for r c
  proof -
    have i: "nat r < length [0 .. rows - 1]" using that by simp
    have j: "nat c < nat cols" using that by simp
    have idx: "nat (r * cols + c) = nat r * nat cols + nat c"
      using that assms by (simp add: nat_add_distrib nat_mult_distrib)
    have r: "[0 .. rows - 1] ! nat r = r" using that by simp
    have c: "[0 .. cols - 1] ! nat c = c" using that by simp
    from nth_concat_rows [OF i j len_g] have
      "?tiles ! (nat r * nat cols + nat c) = ?g ([0 .. rows - 1] ! nat r) ! nat c" .
    also have "\<dots> = ?g r ! nat c" by (simp only: r)
    also have "\<dots> = (grid_line s n rows r, grid_line w e cols c,
              grid_line s n rows (r + 1), grid_line w e cols (c + 1))"
      using that by (simp add: c del: upto.simps)
    finally show ?thesis by (simp only: idx)
  qed
  have mono_lat: "s \<le> n \<longrightarrow> (\<forall>i. grid_line s n rows i \<le> grid_line s n rows (i + 1))"
    using assms(1) by (simp add: grid_line_mono)
  have mono_lon: "w \<le> e \<longrightarrow> (\<forall>i. grid_line w e cols i \<le> grid_line w e cols (i + 1))"
    using assms(2) by (simp add: grid_line_mono)
  from t l nth grid_line_0 mono_lat mono_lon show ?thesis by blast
qed

theorem tile_bbox_grid_witness:
  "(0::int) < 2 \<and> (0::int) < 1
   \<and> (\<exists>tiles. tile_bbox (float_lit 2 10, 0, float_lit 9 10, 1) 2 1 = Inr tiles
        \<and> length tiles = 2
        \<and> tiles ! 1 =
            (2476979795053773 / 4503599627370496, 0, 2026619832316723 / 2251799813685248, 1))"
proof -
  have p: "(0::int) < 2" "(0::int) < 1" by simp_all
  from tile_bbox_grid [OF p, of "float_lit 2 10" 0 "float_lit 9 10" 1]
  obtain tiles where t: "tile_bbox (float_lit 2 10, 0, float_lit 9 10, 1) 2 1 = Inr tiles"
    and l: "length tiles = nat (2 * 1)"
    and n: "\<forall>r c. 0 \<le> r \<and> r < 2 \<and> 0 \<le> c \<and> c < 1 \<longrightarrow>
           tiles ! nat (r * 1 + c) =
             (grid_line (float_lit 2 10) (float_lit 9 10) 2 r, grid_line 0 1 1 c,
              grid_line (float_lit 2 10) (float_lit 9 10) 2 (r + 1), grid_line 0 1 1 (c + 1))"
    by blast
  from n have "tiles ! nat (1 * 1 + 0) =
             (grid_line (float_lit 2 10) (float_lit 9 10) 2 1, grid_line 0 1 1 0,
              grid_line (float_lit 2 10) (float_lit 9 10) 2 (1 + 1), grid_line 0 1 1 (0 + 1))"
    by (intro n [rule_format]) simp
  then have "tiles ! 1 =
            (2476979795053773 / 4503599627370496, 0, 2026619832316723 / 2251799813685248, 1)"
    by (simp add: ex_lat_lines ex_lon_lines)
  with t l p show ?thesis by simp
qed

end
